theory Spec2Isabelle
  imports Complex_Main
begin

section \<open>Strings and the regular expressions of the normalizer\<close>

text \<open>
  A JavaScript string is a sequence of UTF-16 code units, here the integers from 0 to
  65535. Literals are written \<open>js ''...''\<close>.
\<close>

type_synonym jstring = "int list"

definition js :: "string \<Rightarrow> jstring" where
  "js s = map of_char s"

text \<open>
  \<open>String.prototype.toLowerCase\<close> belongs to the language, and its Unicode tables are not
  in the repository. The functions of \<open>normalize.ts\<close> are therefore translated with the
  lowering as a parameter (\<open>normalizeTrackTitle_with\<close>, \<open>normalizeArtistName_with\<close>), and
  what is proved about all strings is proved for every lowering. \<open>toLowerCase\<close> below is
  the lowering of Basic Latin, \<open>A\<close>..\<open>Z\<close> to \<open>a\<close>..\<open>z\<close> and nothing else; it is what the
  language does on a string whose other code units have no case mapping, and it is used
  where the functions are run.
\<close>

definition is_upper :: "int \<Rightarrow> bool" where
  "is_upper c = (65 \<le> c \<and> c \<le> 90)"

definition is_lower :: "int \<Rightarrow> bool" where
  "is_lower c = (97 \<le> c \<and> c \<le> 122)"

definition lower_cu :: "int \<Rightarrow> int" where
  "lower_cu c = (if is_upper c then c + 32 else c)"

definition toLowerCase :: "jstring \<Rightarrow> jstring" where
  "toLowerCase s = map lower_cu s"

text \<open>
  The regular expressions of the source use character classes, concatenation, \<open>?\<close>,
  \<open>*\<close>, \<open>+\<close> and \<open>$\<close> (without the \<open>m\<close> flag: end of input). \<open>rmatch r s\<close>
  lists, in the backtracking order of the JavaScript matcher (greedy quantifiers try the
  longer alternative first), what is left of \<open>s\<close> after each way of matching \<open>r\<close> at
  its start. The first element is the match JavaScript reports. An iteration of
  \<open>*\<close> that consumes nothing is not continued, as in the language specification.
\<close>

datatype rx =
    Chr "int \<Rightarrow> bool"
  | Eps
  | Seq rx rx
  | Opt rx
  | Star rx
  | Eos

fun rmatch :: "rx \<Rightarrow> jstring \<Rightarrow> jstring list" where
  "rmatch (Chr p) s = (case s of [] \<Rightarrow> [] | c # cs \<Rightarrow> if p c then [cs] else [])"
| "rmatch Eps s = [s]"
| "rmatch (Seq a b) s = concat (map (rmatch b) (rmatch a s))"
| "rmatch (Opt a) s = rmatch a s @ [s]"
| "rmatch (Star a) s =
     concat (map (\<lambda>t. if length t < length s then rmatch (Star a) t else [])
                 (rmatch a s)) @ [s]"
| "rmatch Eos s = (if s = [] then [[]] else [])"

declare rmatch.simps(5) [simp del]

definition Plus :: "rx \<Rightarrow> rx" where
  "Plus r = Seq r (Star r)"

definition seqs :: "rx list \<Rightarrow> rx" where
  "seqs rs = foldr Seq rs Eps"

text \<open>A pattern character: exact, and under the \<open>i\<close> flag (a letter matches both cases).\<close>

definition ch :: "char \<Rightarrow> rx" where
  "ch x = Chr (\<lambda>c. c = of_char x)"

definition chi :: "char \<Rightarrow> rx" where
  "chi x = Chr (\<lambda>c. lower_cu c = lower_cu (of_char x))"

definition liti :: "string \<Rightarrow> rx" where
  "liti xs = seqs (map chi xs)"

text \<open>\<open>\s\<close>: white space and line terminators. \<open>.\<close>: anything but a line terminator.\<close>

definition ws :: "int \<Rightarrow> bool" where
  "ws c = (c = 32 \<or> (9 \<le> c \<and> c \<le> 13) \<or> c = 160 \<or> c = 5760
           \<or> (8192 \<le> c \<and> c \<le> 8202) \<or> c = 8232 \<or> c = 8233 \<or> c = 8239
           \<or> c = 8287 \<or> c = 12288 \<or> c = 65279)"

definition dot :: "int \<Rightarrow> bool" where
  "dot c = (c \<noteq> 10 \<and> c \<noteq> 13 \<and> c \<noteq> 8232 \<and> c \<noteq> 8233)"

text \<open>
  \<open>s.replace(r, ...)\<close> with the \<open>g\<close> flag: scan from the left, replace each match and go
  on behind it; an empty match is replaced and the scan moves one code unit on. The
  replacement is a function of the matched text. Without the \<open>g\<close> flag only the leftmost
  match is replaced.
\<close>

fun replace_all :: "rx \<Rightarrow> (jstring \<Rightarrow> jstring) \<Rightarrow> jstring \<Rightarrow> jstring" where
  "replace_all r f s =
     (case rmatch r s of
        t # _ \<Rightarrow>
          if length t < length s then f (take (length s - length t) s) @ replace_all r f t
          else (case s of [] \<Rightarrow> f [] | c # cs \<Rightarrow> f [] @ c # replace_all r f cs)
      | [] \<Rightarrow> (case s of [] \<Rightarrow> [] | c # cs \<Rightarrow> c # replace_all r f cs))"

fun replace_first :: "rx \<Rightarrow> (jstring \<Rightarrow> jstring) \<Rightarrow> jstring \<Rightarrow> jstring" where
  "replace_first r f s =
     (case rmatch r s of
        t # _ \<Rightarrow> f (take (length s - length t) s) @ t
      | [] \<Rightarrow> (case s of [] \<Rightarrow> [] | c # cs \<Rightarrow> c # replace_first r f cs))"

declare replace_all.simps [simp del] replace_first.simps [simp del]

text \<open>\<open>occurs r s\<close>: the pattern matches somewhere in \<open>s\<close>.\<close>

fun occurs :: "rx \<Rightarrow> jstring \<Rightarrow> bool" where
  "occurs r [] = (rmatch r [] \<noteq> [])"
| "occurs r (c # cs) = (rmatch r (c # cs) \<noteq> [] \<or> occurs r cs)"

definition trim :: "jstring \<Rightarrow> jstring" where
  "trim s = rev (dropWhile ws (rev (dropWhile ws s)))"

subsection \<open>normalize.ts\<close>

text \<open>The patterns of \<open>normalizeTrackTitle\<close>, in the order of the source.\<close>

definition re_feat_paren :: rx where
  \<comment> \<open>\<open>/\s*\(feat\.?\s+[^)]+\)/gi\<close>\<close>
  "re_feat_paren = seqs [Star (Chr ws), liti ''(feat'', Opt (ch CHR ''.''), Plus (Chr ws),
                         Plus (Chr (\<lambda>c. c \<noteq> 41)), ch CHR '')'']"

definition re_ft_paren :: rx where
  \<comment> \<open>\<open>/\s*\(ft\.?\s+[^)]+\)/gi\<close>\<close>
  "re_ft_paren = seqs [Star (Chr ws), liti ''(ft'', Opt (ch CHR ''.''), Plus (Chr ws),
                       Plus (Chr (\<lambda>c. c \<noteq> 41)), ch CHR '')'']"

definition re_feat_bracket :: rx where
  \<comment> \<open>\<open>/\s*\[feat\.?\s+[^\]]+\]/gi\<close>\<close>
  "re_feat_bracket = seqs [Star (Chr ws), liti ''[feat'', Opt (ch CHR ''.''), Plus (Chr ws),
                           Plus (Chr (\<lambda>c. c \<noteq> 93)), ch CHR '']'']"

definition dash :: rx where
  \<comment> \<open>the class \<open>[-\<dots>]\<close> of the source: hyphen-minus or en dash (U+2013)\<close>
  "dash = Chr (\<lambda>c. c = 45 \<or> c = 8211)"

definition re_video :: rx where
  \<comment> \<open>\<open>/\s*[-\<dots>]\s*(official\s+)?(music\s+)?video/gi\<close>\<close>
  "re_video = seqs [Star (Chr ws), dash, Star (Chr ws),
                    Opt (Seq (liti ''official'') (Plus (Chr ws))),
                    Opt (Seq (liti ''music'') (Plus (Chr ws))), liti ''video'']"

definition re_official_audio :: rx where
  \<comment> \<open>\<open>/\s*[-\<dots>]\s*official\s+audio/gi\<close>\<close>
  "re_official_audio = seqs [Star (Chr ws), dash, Star (Chr ws), liti ''official'',
                             Plus (Chr ws), liti ''audio'']"

definition re_official_paren :: rx where
  \<comment> \<open>\<open>/\s*\(official\s+[^)]+\)/gi\<close>\<close>
  "re_official_paren = seqs [Star (Chr ws), liti ''(official'', Plus (Chr ws),
                             Plus (Chr (\<lambda>c. c \<noteq> 41)), ch CHR '')'']"

definition re_lyrics :: rx where
  \<comment> \<open>\<open>/\s*\(lyrics?\s*\)/gi\<close>\<close>
  "re_lyrics = seqs [Star (Chr ws), liti ''(lyric'', Opt (chi CHR ''s''), Star (Chr ws),
                     ch CHR '')'']"

definition re_audio :: rx where
  \<comment> \<open>\<open>/\s*\(audio\s*\)/gi\<close>\<close>
  "re_audio = seqs [Star (Chr ws), liti ''(audio'', Star (Chr ws), ch CHR '')'']"

definition re_visualizer :: rx where
  \<comment> \<open>\<open>/\s*\(visuali[sz]er\s*\)/gi\<close>\<close>
  "re_visualizer = seqs [Star (Chr ws), liti ''(visuali'',
                         Chr (\<lambda>c. lower_cu c = 115 \<or> lower_cu c = 122), liti ''er'',
                         Star (Chr ws), ch CHR '')'']"

definition re_pipe :: rx where
  \<comment> \<open>\<open>/\s*\|\s*.*$/g\<close>\<close>
  "re_pipe = seqs [Star (Chr ws), ch CHR ''|'', Star (Chr ws), Star (Chr dot), Eos]"

definition re_apostrophe :: rx where
  \<comment> \<open>\<open>/['']/g\<close>: the class lists the apostrophe (U+0027) twice\<close>
  "re_apostrophe = Chr (\<lambda>c. c = 39 \<or> c = 39)"

definition re_quote :: rx where
  \<comment> \<open>\<open>/[""]/g\<close>: the class lists the quotation mark (U+0022) twice\<close>
  "re_quote = Chr (\<lambda>c. c = 34 \<or> c = 34)"

definition re_spaces :: rx where
  \<comment> \<open>\<open>/\s+/g\<close>\<close>
  "re_spaces = Plus (Chr ws)"

definition title_noise :: "rx list" where
  "title_noise = [re_feat_paren, re_ft_paren, re_feat_bracket, re_video, re_official_audio,
                  re_official_paren, re_lyrics, re_audio, re_visualizer, re_pipe]"

definition normalizeTrackTitle_with :: "(jstring \<Rightarrow> jstring) \<Rightarrow> jstring \<Rightarrow> jstring" where
  "normalizeTrackTitle_with lower title =
     (let s = lower title;
          s = replace_all re_feat_paren (\<lambda>_. []) s;
          s = replace_all re_ft_paren (\<lambda>_. []) s;
          s = replace_all re_feat_bracket (\<lambda>_. []) s;
          s = replace_all re_video (\<lambda>_. []) s;
          s = replace_all re_official_audio (\<lambda>_. []) s;
          s = replace_all re_official_paren (\<lambda>_. []) s;
          s = replace_all re_lyrics (\<lambda>_. []) s;
          s = replace_all re_audio (\<lambda>_. []) s;
          s = replace_all re_visualizer (\<lambda>_. []) s;
          s = replace_all re_pipe (\<lambda>_. []) s;
          s = replace_all re_apostrophe (\<lambda>_. js [CHR 0x27]) s;
          s = replace_all re_quote (\<lambda>_. js [CHR 0x22]) s;
          s = replace_all re_spaces (\<lambda>_. js '' '') s
      in trim s)"

definition normalizeTrackTitle :: "jstring \<Rightarrow> jstring" where
  "normalizeTrackTitle title = normalizeTrackTitle_with toLowerCase title"

text \<open>The patterns of \<open>normalizeArtistName\<close>.\<close>

definition re_vevo :: rx where
  \<comment> \<open>\<open>/vevo$/i\<close>\<close>
  "re_vevo = seqs [liti ''vevo'', Eos]"

definition re_topic :: rx where
  \<comment> \<open>\<open>/\s*-?\s*topic$/i\<close>\<close>
  "re_topic = seqs [Star (Chr ws), Opt (ch CHR ''-''), Star (Chr ws), liti ''topic'', Eos]"

definition re_official :: rx where
  \<comment> \<open>\<open>/\s*-?\s*official$/i\<close>\<close>
  "re_official = seqs [Star (Chr ws), Opt (ch CHR ''-''), Star (Chr ws), liti ''official'', Eos]"

definition re_camel :: rx where
  \<comment> \<open>\<open>/([a-z])([A-Z])/g\<close>, no \<open>i\<close> flag\<close>
  "re_camel = seqs [Chr is_lower, Chr is_upper]"

definition camel_space :: "jstring \<Rightarrow> jstring" where
  \<comment> \<open>the replacement \<open>'$1 $2'\<close>: both groups are one code unit of the match\<close>
  "camel_space m = take 1 m @ js '' '' @ drop 1 m"

definition re_ampersand :: rx where
  \<comment> \<open>\<open>/\s*&\s*/g\<close>\<close>
  "re_ampersand = seqs [Star (Chr ws), ch CHR ''&'', Star (Chr ws)]"

definition re_comma :: rx where
  \<comment> \<open>\<open>/\s*,\s*/g\<close>\<close>
  "re_comma = seqs [Star (Chr ws), ch CHR '','', Star (Chr ws)]"

definition artist_suffixes :: "rx list" where
  "artist_suffixes = [re_vevo, re_topic, re_official]"

definition normalizeArtistName_with :: "(jstring \<Rightarrow> jstring) \<Rightarrow> jstring \<Rightarrow> jstring" where
  "normalizeArtistName_with lower artist =
     (let s = lower artist;
          s = replace_first re_vevo (\<lambda>_. []) s;
          s = replace_first re_topic (\<lambda>_. []) s;
          s = replace_first re_official (\<lambda>_. []) s;
          s = replace_all re_camel camel_space s;
          s = replace_all re_ampersand (\<lambda>_. js '' and '') s;
          s = replace_all re_comma (\<lambda>_. js '' and '') s;
          s = replace_all re_apostrophe (\<lambda>_. js [CHR 0x27]) s;
          s = replace_all re_spaces (\<lambda>_. js '' '') s
      in trim s)"

definition normalizeArtistName :: "jstring \<Rightarrow> jstring" where
  "normalizeArtistName artist = normalizeArtistName_with toLowerCase artist"

definition buildSearchQuery_of :: "jstring \<Rightarrow> jstring \<Rightarrow> jstring" where
  "buildSearchQuery_of track_title track_artist =
     (let t = normalizeTrackTitle track_title;
          a = normalizeArtistName track_artist
      in a @ js '' '' @ t)"

section \<open>types.ts\<close>

datatype platform = spotify | youtube

text \<open>\<open>raw: any\<close> is an opaque payload; its type is a parameter.\<close>

record 'r UnifiedTrack =
  id_track :: jstring
  platform :: platform
  title :: jstring
  artist :: jstring
  artists :: "jstring list"
  album :: "jstring option"
  durationMs :: int
  isrc :: "jstring option"
  videoId :: "jstring option"
  raw :: 'r

datatype MatchStatus = matched | low_confidence | not_found | already_exists

record 'r MatchResult =
  source :: "'r UnifiedTrack"
  target :: "'r UnifiedTrack option"
  confidence :: real
  status :: MatchStatus
  existingId :: "jstring option"

record MatchConfig =
  highConfidenceThreshold :: real
  lowConfidenceThreshold :: real
  durationToleranceMs :: real
  durationWeight :: real
  titleWeight :: real
  artistWeight :: real
  maxSearchResults :: nat

definition DEFAULT_MATCH_CONFIG :: MatchConfig where
  "DEFAULT_MATCH_CONFIG =
     \<lparr>highConfidenceThreshold = 0.80, lowConfidenceThreshold = 0.55,
      durationToleranceMs = 3000, durationWeight = 0.15, titleWeight = 0.55,
      artistWeight = 0.30, maxSearchResults = 10\<rparr>"

definition buildSearchQuery :: "'r UnifiedTrack \<Rightarrow> jstring" where
  "buildSearchQuery track = buildSearchQuery_of (title track) (artist track)"

section \<open>matcher.ts\<close>

text \<open>
  Numbers are modelled as reals, with the one place where the arithmetic of the source
  can leave the finite numbers written out: in
  \<open>Math.max(0, 1 - durationDiff / (config.durationToleranceMs * 3))\<close> a zero divisor
  gives \<open>NaN\<close> for a zero difference (\<open>None\<close> below) and \<open>Infinity\<close> otherwise, so
  that the maximum is 0. Rounding is not modelled.

  \<open>fuzzy\<close> is the similarity function of the library fast-fuzzy, a parameter here.
\<close>

type_synonym fuzzy = "jstring \<Rightarrow> jstring \<Rightarrow> real"

definition durationScore :: "MatchConfig \<Rightarrow> int \<Rightarrow> int \<Rightarrow> real option" where
  "durationScore config sourceMs candidateMs =
     (let durationDiff = real_of_int \<bar>sourceMs - candidateMs\<bar>;
          divisor = durationToleranceMs config * 3
      in if divisor = 0 then (if durationDiff = 0 then None else Some 0)
         else Some (max 0 (1 - durationDiff / divisor)))"

text \<open>
  The body of the loop over the candidates, up to the comparison with the best score.
  \<open>NaN\<close> is absorbing in the sum and in \<open>Math.min\<close>.
\<close>

definition compositeScore ::
  "fuzzy \<Rightarrow> MatchConfig \<Rightarrow> 'r UnifiedTrack \<Rightarrow> 'r UnifiedTrack \<Rightarrow> real option" where
  "compositeScore fuzzy config src candidate =
     (let normalizedSourceTitle = normalizeTrackTitle (title src);
          normalizedCandidateTitle = normalizeTrackTitle (title candidate);
          normalizedSourceArtist = normalizeArtistName (artist src);
          normalizedCandidateArtist = normalizeArtistName (artist candidate);
          titleScore = fuzzy normalizedSourceTitle normalizedCandidateTitle;
          artistScore = fuzzy normalizedSourceArtist normalizedCandidateArtist;
          titleScore = (if normalizedSourceTitle = normalizedCandidateTitle
                        then max titleScore 0.98 else titleScore);
          artistScore = (if normalizedSourceArtist = normalizedCandidateArtist
                         then max artistScore 0.98 else artistScore)
      in case durationScore config (durationMs src) (durationMs candidate) of
           None \<Rightarrow> None
         | Some dScore \<Rightarrow>
             (let composite = titleScore * titleWeight config
                              + artistScore * artistWeight config
                              + dScore * durationWeight config
              in Some (if normalizedSourceTitle = normalizedCandidateTitle
                          \<and> normalizedSourceArtist = normalizedCandidateArtist
                       then min 0.99 (composite + 0.10) else composite)))"

text \<open>The loop: \<open>compositeScore > bestScore\<close> is false for \<open>NaN\<close>.\<close>

fun best_of ::
  "fuzzy \<Rightarrow> MatchConfig \<Rightarrow> 'r UnifiedTrack \<Rightarrow> 'r UnifiedTrack list
     \<Rightarrow> 'r UnifiedTrack option \<times> real \<Rightarrow> 'r UnifiedTrack option \<times> real" where
  "best_of fuzzy config src [] best = best"
| "best_of fuzzy config src (candidate # rest) (bestMatch, bestScore) =
     (case compositeScore fuzzy config src candidate of
        Some score \<Rightarrow>
          if score > bestScore
          then best_of fuzzy config src rest (Some candidate, score)
          else best_of fuzzy config src rest (bestMatch, bestScore)
      | None \<Rightarrow> best_of fuzzy config src rest (bestMatch, bestScore))"

text \<open>\<open>matchTrack\<close> from the candidates on (the code behind the general search).\<close>

definition matchCandidates ::
  "fuzzy \<Rightarrow> 'r UnifiedTrack \<Rightarrow> 'r UnifiedTrack list \<Rightarrow> MatchConfig \<Rightarrow> 'r MatchResult" where
  "matchCandidates fuzzy src candidates config =
     (if length candidates = 0
      then \<lparr>source = src, target = None, confidence = 0, status = not_found,
            existingId = None\<rparr>
      else
        (case best_of fuzzy config src candidates (None, 0) of
           (bestMatch, bestScore) \<Rightarrow>
             if bestMatch = None \<or> bestScore < lowConfidenceThreshold config
             then \<lparr>source = src, target = bestMatch, confidence = bestScore,
                   status = not_found, existingId = None\<rparr>
             else \<lparr>source = src, target = bestMatch, confidence = bestScore,
                   status = (if bestScore \<ge> highConfidenceThreshold config
                             then matched else low_confidence),
                   existingId = None\<rparr>))"

text \<open>
  \<open>searchFn\<close> is a call to the outside: it reads and changes a world \<open>'w\<close> and either
  returns candidates or throws a value of type \<open>'e\<close>.
\<close>

type_synonym ('r, 'e, 'w) searchFn = "jstring \<Rightarrow> 'w \<Rightarrow> ('e + 'r UnifiedTrack list) \<times> 'w"

definition matchTrack_general ::
  "fuzzy \<Rightarrow> 'r UnifiedTrack \<Rightarrow> ('r, 'e, 'w) searchFn \<Rightarrow> MatchConfig \<Rightarrow> 'w
     \<Rightarrow> ('e + 'r MatchResult) \<times> 'w" where
  "matchTrack_general fuzzy src searchFn config w =
     (let query = buildSearchQuery src
      in case searchFn query w of
           (Inl error, w') \<Rightarrow> (Inl error, w')
         | (Inr candidates, w') \<Rightarrow> (Inr (matchCandidates fuzzy src candidates config), w'))"

definition matchTrack ::
  "fuzzy \<Rightarrow> 'r UnifiedTrack \<Rightarrow> ('r, 'e, 'w) searchFn \<Rightarrow> MatchConfig \<Rightarrow> 'w
     \<Rightarrow> ('e + 'r MatchResult) \<times> 'w" where
  "matchTrack fuzzy src searchFn config w =
     (case isrc src of
        None \<Rightarrow> matchTrack_general fuzzy src searchFn config w
      | Some code \<Rightarrow>
          if code = [] then matchTrack_general fuzzy src searchFn config w
          else
            (case searchFn code w of
               (Inl error, w') \<Rightarrow> matchTrack_general fuzzy src searchFn config w'
             | (Inr [], w') \<Rightarrow> matchTrack_general fuzzy src searchFn config w'
             | (Inr (first # _), w') \<Rightarrow>
                 (Inr \<lparr>source = src, target = Some first, confidence = 0.99,
                       status = matched, existingId = None\<rparr>, w')))"

text \<open>The check against the tracks already in the target (lines 107 to 111).\<close>

definition existing_check :: "jstring set \<Rightarrow> 'r MatchResult \<Rightarrow> 'r MatchResult" where
  "existing_check existingIds result =
     (case target result of
        None \<Rightarrow> result
      | Some t \<Rightarrow>
          if id_track t \<in> existingIds
          then result\<lparr>status := already_exists, existingId := Some (id_track t)\<rparr>
          else result)"

text \<open>
  The loop of \<open>matchTracks\<close> from index \<open>i\<close> on. \<open>onProgress\<close>, when given, acts on the
  world; the delay of 200 ms is not modelled.
\<close>

fun matchTracks_from ::
  "fuzzy \<Rightarrow> nat \<Rightarrow> nat \<Rightarrow> 'r UnifiedTrack list \<Rightarrow> ('r, 'e, 'w) searchFn \<Rightarrow> jstring set
     \<Rightarrow> MatchConfig \<Rightarrow> (nat \<Rightarrow> nat \<Rightarrow> 'w \<Rightarrow> 'w) option \<Rightarrow> 'w
     \<Rightarrow> ('e + 'r MatchResult list) \<times> 'w" where
  "matchTracks_from fuzzy i n [] searchFn existingIds config onProgress w = (Inr [], w)"
| "matchTracks_from fuzzy i n (src # rest) searchFn existingIds config onProgress w =
     (case matchTrack fuzzy src searchFn config w of
        (Inl error, w') \<Rightarrow> (Inl error, w')
      | (Inr result, w') \<Rightarrow>
          (let result = existing_check existingIds result;
               w' = (case onProgress of None \<Rightarrow> w' | Some report \<Rightarrow> report (i + 1) n w')
           in case matchTracks_from fuzzy (i + 1) n rest searchFn existingIds config
                     onProgress w' of
                (Inl error, w'') \<Rightarrow> (Inl error, w'')
              | (Inr results, w'') \<Rightarrow> (Inr (result # results), w'')))"

definition matchTracks ::
  "fuzzy \<Rightarrow> 'r UnifiedTrack list \<Rightarrow> ('r, 'e, 'w) searchFn \<Rightarrow> jstring set
     \<Rightarrow> MatchConfig \<Rightarrow> (nat \<Rightarrow> nat \<Rightarrow> 'w \<Rightarrow> 'w) option \<Rightarrow> 'w
     \<Rightarrow> ('e + 'r MatchResult list) \<times> 'w" where
  "matchTracks fuzzy sources searchFn existingIds config onProgress w =
     matchTracks_from fuzzy 0 (length sources) sources searchFn existingIds config onProgress w"

text \<open>\<open>deduplicateResults\<close>: the map over the results, with the set \<open>seen\<close> as state.\<close>

fun dedup_from :: "jstring set \<Rightarrow> 'r MatchResult list \<Rightarrow> 'r MatchResult list" where
  "dedup_from seen [] = []"
| "dedup_from seen (r # rs) =
     (case target r of
        None \<Rightarrow> r # dedup_from seen rs
      | Some t \<Rightarrow>
          if id_track t \<in> seen then r\<lparr>status := already_exists\<rparr> # dedup_from seen rs
          else r # dedup_from (insert (id_track t) seen) rs)"

definition deduplicateResults :: "'r MatchResult list \<Rightarrow> 'r MatchResult list" where
  "deduplicateResults results = dedup_from {} results"

section \<open>matcher.worker.ts\<close>

text \<open>
  The message handler: a message whose type is not \<open>'match'\<close> gets no response (\<open>None\<close>).
\<close>

definition onmessage ::
  "fuzzy \<Rightarrow> jstring \<Rightarrow> 'r UnifiedTrack \<Rightarrow> 'r UnifiedTrack list \<Rightarrow> MatchConfig \<Rightarrow> jstring list
     \<Rightarrow> 'r MatchResult option" where
  "onmessage fuzzy type_msg src candidates config existingIds =
     (if type_msg \<noteq> js ''match'' then None
      else if length candidates = 0
      then Some \<lparr>source = src, target = None, confidence = 0, status = not_found,
                 existingId = None\<rparr>
      else
        (case best_of fuzzy config src candidates (None, 0) of
           (bestMatch, bestScore) \<Rightarrow>
             (let existingIdSet = set existingIds;
                  st =
                    (case bestMatch of
                       None \<Rightarrow> not_found
                     | Some b \<Rightarrow>
                         if bestScore \<ge> lowConfidenceThreshold config
                         then (if id_track b \<in> existingIdSet then already_exists
                               else if bestScore \<ge> highConfidenceThreshold config
                               then matched else low_confidence)
                         else not_found)
              in Some \<lparr>source = src, target = bestMatch, confidence = bestScore,
                        status = st,
                        existingId = (case bestMatch of
                                        None \<Rightarrow> None
                                      | Some b \<Rightarrow> if st = already_exists
                                                  then Some (id_track b) else None)\<rparr>)))"

section \<open>The calls to the language model\<close>

text \<open>
  The repository asks the language model in two places: \<open>callGeminiAPI\<close>, in the copy of
  the hook \<open>useGeminiMatching\<close> that calls the model itself, and \<open>matchWithGemini\<close> of
  \<open>lib/gemini/client.ts\<close>, which the route \<open>/api/sync/match-gemini\<close> serves.
\<close>

text \<open>
  What the request to the model can come back with: \<open>fetch\<close> rejects; the response is
  not OK (with its status); the body cannot be used (\<open>response.json()\<close> rejects, or
  reading the text out of the data throws); or the text
  \<open>data.candidates?.[0]?.content?.parts?.[0]?.text || ''\<close>. A request that never settles
  is not modelled: the source sets no timeout.
\<close>

datatype gemini_reply =
    fetch_rejects
  | not_ok nat
  | body_unusable
  | reply_text jstring

datatype gemini_error =
    NetworkError | GeminiApiError nat | TypeError | NoJson | SyntaxError
  | InvalidMatchIndex | MissingApiKey

text \<open>
  The object \<open>JSON.parse\<close> returns, as far as the source reads it. The prompt asks for
  two numbers; a field is a number or absent (\<open>None\<close>), values of other JSON types are
  not modelled. \<open>JSON.parse\<close> itself is a parameter (\<open>None\<close>: it throws).
\<close>

record gemini_json =
  bestMatchIndex :: "real option"
  confidence_json :: "real option"

definition re_json :: rx where
  \<comment> \<open>\<open>/\{[\s\S]*\}/\<close>\<close>
  "re_json = seqs [ch CHR ''{'', Star (Chr (\<lambda>c. ws c \<or> \<not> ws c)), ch CHR ''}'']"

fun match_first :: "rx \<Rightarrow> jstring \<Rightarrow> jstring option" where
  "match_first r s =
     (case rmatch r s of
        t # _ \<Rightarrow> Some (take (length s - length t) s)
      | [] \<Rightarrow> (case s of [] \<Rightarrow> None | c # cs \<Rightarrow> match_first r cs))"

declare match_first.simps [simp del]

text \<open>
  The body of the \<open>try\<close> block. \<open>result.confidence || 0\<close> is the number, or 0 when it is
  absent. An absent index fails all three comparisons and \<open>candidates[undefined]\<close> is
  \<open>undefined\<close>, as is \<open>candidates[i]\<close> for a fractional \<open>i\<close>; \<open>null\<close> and \<open>undefined\<close>
  are both \<open>None\<close>. The prompt is built before the block and only reaches the model.
\<close>

definition callGeminiAPI_try ::
  "(jstring \<Rightarrow> gemini_json option) \<Rightarrow> gemini_reply \<Rightarrow> 'r UnifiedTrack list
     \<Rightarrow> gemini_error + ('r UnifiedTrack option \<times> real)" where
  "callGeminiAPI_try parse reply candidates =
     (case reply of
        fetch_rejects \<Rightarrow> Inl NetworkError
      | not_ok st \<Rightarrow> Inl (GeminiApiError st)
      | body_unusable \<Rightarrow> Inl TypeError
      | reply_text text \<Rightarrow>
          (case match_first re_json text of
             None \<Rightarrow> Inl NoJson
           | Some jsonMatch \<Rightarrow>
               (case parse jsonMatch of
                  None \<Rightarrow> Inl SyntaxError
                | Some result \<Rightarrow>
                    (let conf = (case confidence_json result of None \<Rightarrow> 0 | Some c \<Rightarrow> c)
                     in case bestMatchIndex result of
                          None \<Rightarrow> Inr (None, conf)
                        | Some i \<Rightarrow>
                            if i = - 1 \<or> i < 0 \<or> i \<ge> real (length candidates)
                            then Inr (None, conf)
                            else Inr (if real_of_int \<lfloor>i\<rfloor> = i
                                      then Some (candidates ! nat \<lfloor>i\<rfloor>) else None, conf)))))"

definition callGeminiAPI ::
  "(jstring \<Rightarrow> gemini_json option) \<Rightarrow> gemini_reply \<Rightarrow> 'r UnifiedTrack
     \<Rightarrow> 'r UnifiedTrack list \<Rightarrow> gemini_error + ('r UnifiedTrack option \<times> real)" where
  "callGeminiAPI parse reply sourceTrack candidates =
     (case callGeminiAPI_try parse reply candidates of
        Inr r \<Rightarrow> Inr r
      | Inl error \<Rightarrow>
          Inr (case candidates of [] \<Rightarrow> None | first # _ \<Rightarrow> Some first, 0.3))"

text \<open>
  \<open>matchWithGemini\<close>: the key is checked before the \<open>try\<close> block, so that a missing key
  is thrown to the caller. In the block, \<open>-1\<close> and \<open>null\<close> mean no match, and any other
  index below 0 or beyond the candidates is thrown as invalid, which the \<open>catch\<close> turns into
  the first candidate with confidence 0.3. The confidence is \<open>result.confidence\<close> as it
  is (\<open>None\<close>: absent); the field \<open>reasoning\<close> is left out.
\<close>

definition matchWithGemini_try ::
  "(jstring \<Rightarrow> gemini_json option) \<Rightarrow> gemini_reply \<Rightarrow> 'r UnifiedTrack list
     \<Rightarrow> gemini_error + ('r UnifiedTrack option \<times> real option)" where
  "matchWithGemini_try parse reply candidates =
     (case reply of
        fetch_rejects \<Rightarrow> Inl NetworkError
      | not_ok st \<Rightarrow> Inl (GeminiApiError st)
      | body_unusable \<Rightarrow> Inl TypeError
      | reply_text text \<Rightarrow>
          (case match_first re_json text of
             None \<Rightarrow> Inl NoJson
           | Some jsonMatch \<Rightarrow>
               (case parse jsonMatch of
                  None \<Rightarrow> Inl SyntaxError
                | Some result \<Rightarrow>
                    (case bestMatchIndex result of
                       None \<Rightarrow> Inr (None, confidence_json result)
                     | Some i \<Rightarrow>
                         if i = - 1 then Inr (None, confidence_json result)
                         else if i < 0 \<or> i \<ge> real (length candidates)
                         then Inl InvalidMatchIndex
                         else Inr (if real_of_int \<lfloor>i\<rfloor> = i
                                   then Some (candidates ! nat \<lfloor>i\<rfloor>) else None,
                                   confidence_json result)))))"

definition matchWithGemini ::
  "jstring \<Rightarrow> (jstring \<Rightarrow> gemini_json option) \<Rightarrow> gemini_reply \<Rightarrow> 'r UnifiedTrack
     \<Rightarrow> 'r UnifiedTrack list \<Rightarrow> gemini_error + ('r UnifiedTrack option \<times> real option)" where
  "matchWithGemini apiKey parse reply sourceTrack candidates =
     (if apiKey = [] then Inl MissingApiKey
      else
        (case candidates of
           [] \<Rightarrow> Inr (None, Some 0)
         | first # _ \<Rightarrow>
             (case matchWithGemini_try parse reply candidates of
                Inr r \<Rightarrow> Inr r
              | Inl error \<Rightarrow> Inr (Some first, Some 0.3))))"

section \<open>Auxiliary notions for the statements\<close>

text \<open>
  \<open>general_path_from src searchFn w w1\<close>: started in the world \<open>w\<close>, \<open>matchTrack\<close> gets to
  the general search in the world \<open>w1\<close>: the source has no recording code (or an empty
  one), or the search for the code threw or returned nothing.
\<close>

definition general_path_from ::
  "'r UnifiedTrack \<Rightarrow> ('r, 'e, 'w) searchFn \<Rightarrow> 'w \<Rightarrow> 'w \<Rightarrow> bool" where
  "general_path_from src searchFn w w1 =
     (case isrc src of
        None \<Rightarrow> w1 = w
      | Some code \<Rightarrow>
          if code = [] then w1 = w
          else (case searchFn code w of
                  (Inl error, w') \<Rightarrow> w1 = w'
                | (Inr [], w') \<Rightarrow> w1 = w'
                | (Inr (first # _), w') \<Rightarrow> False))"

text \<open>
  \<open>target_ids rs\<close>: the identifiers of the targets of the results \<open>rs\<close>.
\<close>

fun target_ids :: "'r MatchResult list \<Rightarrow> jstring set" where
  "target_ids [] = {}"
| "target_ids (r # rs) =
     (case target r of
        None \<Rightarrow> target_ids rs
      | Some t \<Rightarrow> insert (id_track t) (target_ids rs))"

text \<open>
  \<open>nullable r\<close>: the pattern can match without consuming anything. \<open>spaced s\<close>: every
  white space of \<open>s\<close> is a single space (U+0020) with no white space next to it.
\<close>

fun nullable :: "rx \<Rightarrow> bool" where
  "nullable (Chr p) = False"
| "nullable Eps = True"
| "nullable (Seq a b) = (nullable a \<and> nullable b)"
| "nullable (Opt a) = True"
| "nullable (Star a) = True"
| "nullable Eos = True"

fun spaced :: "jstring \<Rightarrow> bool" where
  "spaced [] = True"
| "spaced [c] = (ws c \<longrightarrow> c = 32)"
| "spaced (c # d # s) = ((ws c \<longrightarrow> c = 32 \<and> \<not> ws d) \<and> spaced (d # s))"

text \<open>Sample data: a similarity that only tells equal from different, and tracks.\<close>

definition exact_metric :: fuzzy where
  "exact_metric a b = (if a = b then 1 else 0)"

definition sample_track ::
  "string \<Rightarrow> string \<Rightarrow> string \<Rightarrow> int \<Rightarrow> jstring option \<Rightarrow> unit UnifiedTrack" where
  "sample_track i t a ms code =
     \<lparr>id_track = js i, platform = youtube, title = js t, artist = js a, artists = [js a],
      album = None, durationMs = ms, isrc = code, videoId = None, raw = ()\<rparr>"

definition sample_source :: "unit UnifiedTrack" where
  "sample_source = sample_track ''s1'' ''Hello'' ''Adele'' 295000 None"

definition sample_other :: "unit UnifiedTrack" where
  "sample_other = sample_track ''t9'' ''Numb'' ''Linkin Park'' 295000 None"

definition sample_coded :: "unit UnifiedTrack" where
  "sample_coded = sample_track ''s2'' ''Hello'' ''Adele'' 295000 (Some (js ''GBBKS1500214''))"

text \<open>Sample searches; the world counts the calls.\<close>

definition code_fails :: "(unit, string, nat) searchFn" where
  "code_fails q w = (if q = js ''GBBKS1500214'' then Inl ''unavailable'' else Inr [], Suc w)"

definition code_hits :: "(unit, string, nat) searchFn" where
  "code_hits q w = (if q = js ''GBBKS1500214'' then Inr [sample_other, sample_source]
                    else Inl ''unavailable'', Suc w)"

definition all_fails :: "(unit, string, nat) searchFn" where
  "all_fails q w = (Inl ''offline'', Suc w)"

definition sample_same :: "unit UnifiedTrack" where
  "sample_same = sample_track ''t1'' ''Hello (Official Video)'' ''AdeleVEVO'' 295000 None"

definition same_found :: "(unit, string, nat) searchFn" where
  "same_found q w = (Inr [sample_other, sample_same], Suc w)"

text \<open>Sample results, as \<open>matchTrack\<close> returns them.\<close>

definition sample_miss :: "unit MatchResult" where
  "sample_miss = \<lparr>source = sample_source, target = None, confidence = 0, status = not_found,
                  existingId = None\<rparr>"

definition sample_hit :: "unit MatchResult" where
  "sample_hit = \<lparr>source = sample_coded, target = Some sample_other, confidence = 0.99,
                 status = matched, existingId = None\<rparr>"

definition sample_weak :: "unit MatchResult" where
  "sample_weak = \<lparr>source = sample_source, target = Some sample_other, confidence = 0.15,
                  status = not_found, existingId = None\<rparr>"

definition sample_good :: "unit MatchResult" where
  "sample_good = \<lparr>source = sample_source, target = Some sample_same, confidence = 0.99,
                  status = matched, existingId = None\<rparr>"

text \<open>
  A lowering that also knows the Deseret capitals U+10400 to U+10427, in UTF-16 the
  high surrogate D801 followed by DC00 to DC27: their small letters are 40 code points
  on. An unpaired surrogate has no case. This is what the language does on a string of
  Basic Latin, Deseret letters and unpaired surrogates.
\<close>

fun toLowerCase_deseret :: "jstring \<Rightarrow> jstring" where
  "toLowerCase_deseret [] = []"
| "toLowerCase_deseret [c] = [lower_cu c]"
| "toLowerCase_deseret (h # l # s) =
     (if h = 0xD801 \<and> 0xDC00 \<le> l \<and> l \<le> 0xDC27
      then h # (l + 0x28) # toLowerCase_deseret s
      else lower_cu h # toLowerCase_deseret (l # s))"

text \<open>A sample answer of the language model, with an index that no candidate has.\<close>

definition sample_text :: jstring where
  "sample_text = js ''Here you go: {\"bestMatchIndex\": 7, \"confidence\": 0.9} ''"

definition sample_parse :: "jstring \<Rightarrow> gemini_json option" where
  "sample_parse m =
     (if m = js ''{\"bestMatchIndex\": 7, \"confidence\": 0.9}''
      then Some \<lparr>bestMatchIndex = Some 7, confidence_json = Some 0.9\<rparr> else None)"

text \<open>
  \<open>gemini_fails parse reply\<close>: the \<open>try\<close> block throws before it reads the index: network
  error, response not OK, unusable body, no JSON object in the text, or malformed JSON.
\<close>

definition gemini_fails :: "(jstring \<Rightarrow> gemini_json option) \<Rightarrow> gemini_reply \<Rightarrow> bool" where
  "gemini_fails parse reply =
     (case reply of
        fetch_rejects \<Rightarrow> True
      | not_ok st \<Rightarrow> True
      | body_unusable \<Rightarrow> True
      | reply_text text \<Rightarrow>
          (case match_first re_json text of
             None \<Rightarrow> True
           | Some jsonMatch \<Rightarrow> parse jsonMatch = None))"

section \<open>Evaluation of the samples\<close>

lemma sample_norms:
  "normalizeTrackTitle (js ''Hello'') = js ''hello''"
  "normalizeTrackTitle (js ''Numb'') = js ''numb''"
  "normalizeArtistName (js ''Adele'') = js ''adele''"
  "normalizeArtistName (js ''Linkin Park'') = js ''linkin park''"
  by code_simp+

lemma sample_score:
  "compositeScore exact_metric DEFAULT_MATCH_CONFIG sample_source sample_other = Some 0.15"
proof -
  have ne: "js ''hello'' \<noteq> js ''numb''" "js ''adele'' \<noteq> js ''linkin park''"
    by (simp_all add: js_def)
  show ?thesis
    by (simp add: compositeScore_def sample_source_def sample_other_def sample_track_def
        sample_norms ne Let_def durationScore_def DEFAULT_MATCH_CONFIG_def exact_metric_def)
qed

lemma sample_match:
  "matchCandidates exact_metric sample_source [sample_other] DEFAULT_MATCH_CONFIG
     = \<lparr>source = sample_source, target = Some sample_other, confidence = 0.15,
        status = not_found, existingId = None\<rparr>"
proof -
  have low: "lowConfidenceThreshold DEFAULT_MATCH_CONFIG = 0.55"
    by (simp add: DEFAULT_MATCH_CONFIG_def)
  show ?thesis
    by (simp add: matchCandidates_def sample_score low)
qed

lemma sample_query: "buildSearchQuery sample_coded = js ''adele hello''"
  by (simp add: buildSearchQuery_def buildSearchQuery_of_def sample_coded_def sample_track_def
      sample_norms Let_def) (simp add: js_def)

lemma sample_coded_general: "general_path_from sample_coded code_fails 0 1"
  by (simp add: general_path_from_def sample_coded_def sample_track_def code_fails_def js_def)

lemma sample_same_norms:
  "normalizeTrackTitle (js ''Hello (Official Video)'') = js ''hello''"
  "normalizeArtistName (js ''AdeleVEVO'') = js ''adele''"
  by code_simp+

lemma sample_same_score:
  "compositeScore exact_metric DEFAULT_MATCH_CONFIG sample_source sample_same = Some 0.99"
  by (simp add: compositeScore_def sample_source_def sample_same_def sample_track_def
      sample_norms sample_same_norms Let_def durationScore_def DEFAULT_MATCH_CONFIG_def
      exact_metric_def)

lemma sample_same_match:
  "matchCandidates exact_metric sample_source [sample_other, sample_same] DEFAULT_MATCH_CONFIG
     = \<lparr>source = sample_source, target = Some sample_same, confidence = 0.99,
        status = matched, existingId = None\<rparr>"
proof -
  have th: "lowConfidenceThreshold DEFAULT_MATCH_CONFIG = 0.55"
    "highConfidenceThreshold DEFAULT_MATCH_CONFIG = 0.80"
    by (simp_all add: DEFAULT_MATCH_CONFIG_def)
  show ?thesis
    by (simp add: matchCandidates_def sample_score sample_same_score th)
qed

lemma sample_same_tracks:
  "matchTracks exact_metric [sample_source] same_found {js ''t1''} DEFAULT_MATCH_CONFIG None 0
     = (Inr [\<lparr>source = sample_source, target = Some sample_same, confidence = 0.99,
              status = already_exists, existingId = Some (js ''t1'')\<rparr>], 1)"
proof -
  have i: "isrc sample_source = None" "id_track sample_same = js ''t1''"
    by (simp_all add: sample_source_def sample_same_def sample_track_def)
  show ?thesis
    by (simp add: matchTracks_def matchTrack_def matchTrack_general_def i same_found_def
        sample_same_match existing_check_def)
qed

lemma sample_json: "match_first re_json sample_text = Some (js ''{\"bestMatchIndex\": 7, \"confidence\": 0.9}'')"
  by code_simp

section \<open>The matcher\<close>

lemma matchTrack_general_path:
  "general_path_from src searchFn w w1 \<Longrightarrow>
   matchTrack fuzzy src searchFn config w = matchTrack_general fuzzy src searchFn config w1"
  by (auto simp: general_path_from_def matchTrack_def
           split: option.splits prod.splits sum.splits list.splits if_splits)

text \<open>
  C6. A source with a (non-empty) recording code: when the search for the code returns
  candidates, \<open>matchTrack\<close> returns the first of them with confidence 0.99 and status
  \<open>matched\<close>, whatever the similarity function; when that search throws or returns
  nothing, \<open>matchTrack\<close> is the general path run from the world the failed search left,
  and the thrown value is dropped.
\<close>

theorem matchTrack_isrc_fast_path:
  assumes "isrc src = Some code" and "code \<noteq> []"
  shows "(searchFn code w = (Inr (first # others), w') \<longrightarrow>
            matchTrack fuzzy src searchFn config w =
              (Inr \<lparr>source = src, target = Some first, confidence = 0.99, status = matched,
                    existingId = None\<rparr>, w'))
       \<and> ((searchFn code w = (Inl e, w') \<or> searchFn code w = (Inr [], w')) \<longrightarrow>
            matchTrack fuzzy src searchFn config w =
              matchTrack_general fuzzy src searchFn config w')"
  using assms by (auto simp: matchTrack_def)

theorem matchTrack_isrc_fast_path_witness:
  "matchTrack exact_metric sample_coded code_hits DEFAULT_MATCH_CONFIG 0
     = (Inr \<lparr>source = sample_coded, target = Some sample_other, confidence = 0.99,
              status = matched, existingId = None\<rparr>, 1)
   \<and> matchTrack exact_metric sample_coded code_fails DEFAULT_MATCH_CONFIG 0
     = matchTrack_general exact_metric sample_coded code_fails DEFAULT_MATCH_CONFIG 1"
proof -
  have c: "isrc sample_coded = Some (js ''GBBKS1500214'')"
    by (simp add: sample_coded_def sample_track_def)
  have n: "js ''GBBKS1500214'' \<noteq> []"
    by (simp add: js_def)
  have h: "code_hits (js ''GBBKS1500214'') 0 = (Inr (sample_other # [sample_source]), 1)"
    by (simp add: code_hits_def)
  have f: "code_fails (js ''GBBKS1500214'') 0 = (Inl ''unavailable'', 1)"
    by (simp add: code_fails_def)
  from matchTrack_isrc_fast_path [OF c n, where searchFn = code_hits and w = 0
           and first = sample_other and others = "[sample_source]" and w' = 1]
       matchTrack_isrc_fast_path [OF c n, where searchFn = code_fails and w = 0
           and e = "''unavailable''" and w' = 1] h f
  show ?thesis by simp
qed

text \<open>
  C7. When \<open>matchTrack\<close> gets to the general search and that search throws,
  \<open>matchTrack\<close> throws the same value: no result with a status is returned.
\<close>

theorem matchTrack_general_error_propagates:
  assumes "general_path_from src searchFn w w1"
    and "searchFn (buildSearchQuery src) w1 = (Inl e, w2)"
  shows "matchTrack fuzzy src searchFn config w = (Inl e, w2)"
  using assms by (simp add: matchTrack_general_path matchTrack_general_def)

theorem matchTrack_general_error_propagates_witness:
  "general_path_from sample_source all_fails 0 0
   \<and> all_fails (buildSearchQuery sample_source) 0 = (Inl ''offline'', 1)
   \<and> matchTrack exact_metric sample_source all_fails DEFAULT_MATCH_CONFIG 0
       = (Inl ''offline'', 1)"
proof -
  have g: "general_path_from sample_source all_fails 0 0"
    by (simp add: general_path_from_def sample_source_def sample_track_def)
  have s: "all_fails (buildSearchQuery sample_source) 0 = (Inl ''offline'', 1)"
    by (simp add: all_fails_def)
  from matchTrack_general_error_propagates [OF g s] g s show ?thesis by simp
qed

text \<open>
  C9. When the general search returns no candidate, \<open>matchTrack\<close> returns exactly the
  result with no target, confidence 0 and status \<open>not_found\<close>.
\<close>

theorem matchTrack_zero_candidates:
  assumes "general_path_from src searchFn w w1"
    and "searchFn (buildSearchQuery src) w1 = (Inr [], w2)"
  shows "matchTrack fuzzy src searchFn config w =
           (Inr \<lparr>source = src, target = None, confidence = 0, status = not_found,
                 existingId = None\<rparr>, w2)"
  using assms by (simp add: matchTrack_general_path matchTrack_general_def matchCandidates_def)

theorem matchTrack_zero_candidates_witness:
  "general_path_from sample_coded code_fails 0 1
   \<and> code_fails (buildSearchQuery sample_coded) 1 = (Inr [], 2)
   \<and> matchTrack exact_metric sample_coded code_fails DEFAULT_MATCH_CONFIG 0
       = (Inr \<lparr>source = sample_coded, target = None, confidence = 0, status = not_found,
                existingId = None\<rparr>, 2)"
proof -
  have s: "code_fails (buildSearchQuery sample_coded) 1 = (Inr [], 2)"
    by (simp add: sample_query code_fails_def) (simp add: js_def)
  from matchTrack_zero_candidates [OF sample_coded_general s] sample_coded_general s
  show ?thesis by simp
qed

section \<open>Deduplication\<close>

lemma dedup_from_idem: "dedup_from seen (dedup_from seen rs) = dedup_from seen rs"
  by (induction rs arbitrary: seen) (auto split: option.splits)

text \<open>
  C10. \<open>deduplicateResults\<close> is idempotent.
\<close>

theorem deduplicateResults_idempotent:
  "deduplicateResults (deduplicateResults xs) = deduplicateResults xs"
  by (simp add: deduplicateResults_def dedup_from_idem)

section \<open>The worker and the sequential path\<close>

text \<open>
  The worker and the sequential path (scoring and classification of \<open>matchTrack\<close>, then
  the check of \<open>matchTracks\<close> against the existing identifiers) always agree on the
  target and the confidence. They agree on the whole result unless the best candidate
  scores below the low threshold and is already in the target.
\<close>

lemma worker_and_sequential:
  assumes "onmessage fuzzy (js ''match'') src candidates config ids = Some r"
  shows "target r = target (matchCandidates fuzzy src candidates config)
       \<and> confidence r = confidence (matchCandidates fuzzy src candidates config)
       \<and> (r = existing_check (set ids) (matchCandidates fuzzy src candidates config)
           \<or> (status r = not_found \<and> confidence r < lowConfidenceThreshold config
               \<and> (\<exists>t. target r = Some t \<and> id_track t \<in> set ids)))"
proof (cases "candidates = []")
  case True
  with assms show ?thesis
    by (auto simp: onmessage_def matchCandidates_def existing_check_def)
next
  case False
  obtain b s where b: "best_of fuzzy config src candidates (None, 0) = (b, s)"
    by (cases "best_of fuzzy config src candidates (None, 0)")
  with assms False show ?thesis
    by (cases b)
       (auto simp: onmessage_def matchCandidates_def existing_check_def Let_def
             split: if_splits)
qed

text \<open>
  C5. The two paths are meant to give the same result. They do not in the case left
  open above: the worker answers \<open>not_found\<close>, the sequential path \<open>already_exists\<close>.
\<close>

theorem worker_differs_from_sequential:
  "onmessage exact_metric (js ''match'') sample_source [sample_other] DEFAULT_MATCH_CONFIG
       [js ''t9'']
     = Some \<lparr>source = sample_source, target = Some sample_other, confidence = 0.15,
             status = not_found, existingId = None\<rparr>
   \<and> existing_check (set [js ''t9''])
         (matchCandidates exact_metric sample_source [sample_other] DEFAULT_MATCH_CONFIG)
     = \<lparr>source = sample_source, target = Some sample_other, confidence = 0.15,
        status = already_exists, existingId = Some (js ''t9'')\<rparr>"
proof -
  have low: "lowConfidenceThreshold DEFAULT_MATCH_CONFIG = 0.55"
    by (simp add: DEFAULT_MATCH_CONFIG_def)
  have idt: "id_track sample_other = js ''t9''"
    by (simp add: sample_other_def sample_track_def)
  show ?thesis
    by (simp add: onmessage_def sample_score sample_match existing_check_def low idt)
qed

section \<open>The composite score\<close>

lemma durationScore_range:
  assumes "0 < durationToleranceMs config"
  shows "\<exists>d. durationScore config a b = Some d \<and> 0 \<le> d \<and> d \<le> 1"
proof -
  have "0 \<le> real_of_int \<bar>a - b\<bar> / (durationToleranceMs config * 3)"
    using assms by simp
  then show ?thesis
    using assms by (simp add: durationScore_def Let_def)
qed

lemma weighted_sum_range:
  fixes t a d tw aw dw :: real
  assumes "0 \<le> t" "t \<le> 1" "0 \<le> a" "a \<le> 1" "0 \<le> d" "d \<le> 1"
    and "0 \<le> tw" "0 \<le> aw" "0 \<le> dw" "tw + aw + dw \<le> 1"
  shows "0 \<le> t * tw + a * aw + d * dw \<and> t * tw + a * aw + d * dw \<le> 1"
proof -
  have "t * tw \<le> tw" "a * aw \<le> aw" "d * dw \<le> dw"
    using assms by (simp_all add: mult_left_le_one_le)
  moreover have "0 \<le> t * tw" "0 \<le> a * aw" "0 \<le> d * dw"
    using assms by simp_all
  ultimately show ?thesis using assms by linarith
qed

text \<open>
  C8. With a similarity function whose values lie in [0,1], weights that are
  not negative and sum to at most 1, and a positive \<open>durationToleranceMs\<close>, the score of
  a candidate is a number in [0,1].
\<close>

theorem compositeScore_bounds:
  assumes "\<forall>x y. 0 \<le> fuzzy x y \<and> fuzzy x y \<le> 1"
    and "0 \<le> titleWeight config" and "0 \<le> artistWeight config"
    and "0 \<le> durationWeight config"
    and "titleWeight config + artistWeight config + durationWeight config \<le> 1"
    and "0 < durationToleranceMs config"
  shows "\<exists>s. compositeScore fuzzy config src candidate = Some s \<and> 0 \<le> s \<and> s \<le> 1"
proof -
  obtain d where d: "durationScore config (durationMs src) (durationMs candidate) = Some d"
    "0 \<le> d" "d \<le> 1"
    using durationScore_range [OF assms(6)] by blast
  define t0 where "t0 = fuzzy (normalizeTrackTitle (title src)) (normalizeTrackTitle (title candidate))"
  define a0 where "a0 = fuzzy (normalizeArtistName (artist src)) (normalizeArtistName (artist candidate))"
  define t where "t = (if normalizeTrackTitle (title src) = normalizeTrackTitle (title candidate) then max t0 0.98 else t0)"
  define a where "a = (if normalizeArtistName (artist src) = normalizeArtistName (artist candidate) then max a0 0.98 else a0)"
  have t: "0 \<le> t" "t \<le> 1" using assms(1) by (auto simp: t_def t0_def)
  have a: "0 \<le> a" "a \<le> 1" using assms(1) by (auto simp: a_def a0_def)
  define c where "c = t * titleWeight config + a * artistWeight config + d * durationWeight config"
  have c: "0 \<le> c \<and> c \<le> 1"
    unfolding c_def using weighted_sum_range [OF t a d(2,3) assms(2,3,4,5)] .
  have "compositeScore fuzzy config src candidate =
          Some (if normalizeTrackTitle (title src) = normalizeTrackTitle (title candidate)
                   \<and> normalizeArtistName (artist src) = normalizeArtistName (artist candidate)
                then min 0.99 (c + 0.10) else c)"
    by (simp add: compositeScore_def Let_def d c_def t_def a_def t0_def a0_def)
  with c show ?thesis by auto
qed

theorem compositeScore_bounds_witness:
  "(\<forall>x y. 0 \<le> exact_metric x y \<and> exact_metric x y \<le> 1)
   \<and> titleWeight DEFAULT_MATCH_CONFIG + artistWeight DEFAULT_MATCH_CONFIG
       + durationWeight DEFAULT_MATCH_CONFIG \<le> 1
   \<and> 0 < durationToleranceMs DEFAULT_MATCH_CONFIG
   \<and> (\<exists>s. compositeScore exact_metric DEFAULT_MATCH_CONFIG sample_source sample_other = Some s
          \<and> 0 \<le> s \<and> s \<le> 1)"
proof -
  have f: "\<forall>x y. 0 \<le> exact_metric x y \<and> exact_metric x y \<le> 1"
    by (simp add: exact_metric_def)
  have w: "0 \<le> titleWeight DEFAULT_MATCH_CONFIG" "0 \<le> artistWeight DEFAULT_MATCH_CONFIG"
    "0 \<le> durationWeight DEFAULT_MATCH_CONFIG"
    "titleWeight DEFAULT_MATCH_CONFIG + artistWeight DEFAULT_MATCH_CONFIG
       + durationWeight DEFAULT_MATCH_CONFIG \<le> 1"
    "0 < durationToleranceMs DEFAULT_MATCH_CONFIG"
    by (simp_all add: DEFAULT_MATCH_CONFIG_def)
  from compositeScore_bounds [OF f w, of sample_source sample_other] f w
  show ?thesis by blast
qed

text \<open>
  Without the condition on \<open>durationToleranceMs\<close> the bound fails, with the default
  weights: for a tolerance of 0 and equal durations the score is \<open>NaN\<close>, for a negative
  tolerance the duration term exceeds 1.
\<close>

theorem compositeScore_bounds_counterexample:
  "compositeScore exact_metric (DEFAULT_MATCH_CONFIG\<lparr>durationToleranceMs := 0\<rparr>)
       sample_source sample_other = None
   \<and> compositeScore exact_metric (DEFAULT_MATCH_CONFIG\<lparr>durationToleranceMs := - 3000\<rparr>)
       sample_source (sample_other\<lparr>durationMs := 235000\<rparr>) = Some 1.15"
proof -
  have ne: "js ''hello'' \<noteq> js ''numb''" "js ''adele'' \<noteq> js ''linkin park''"
    by (simp_all add: js_def)
  show ?thesis
    by (simp add: compositeScore_def sample_source_def sample_other_def sample_track_def
        sample_norms ne Let_def durationScore_def DEFAULT_MATCH_CONFIG_def exact_metric_def)
qed

section \<open>The status \<open>already_exists\<close>\<close>

lemma dedup_from_length: "length (dedup_from seen rs) = length rs"
  by (induction rs arbitrary: seen) (auto split: option.splits)

lemma dedup_from_exact:
  "i < length rs \<Longrightarrow>
   dedup_from seen rs ! i =
     (if \<exists>t. target (rs ! i) = Some t \<and> id_track t \<in> seen \<union> target_ids (take i rs)
      then (rs ! i)\<lparr>status := already_exists\<rparr> else rs ! i)"
proof (induction rs arbitrary: seen i)
  case Nil
  then show ?case by simp
next
  case (Cons r rs)
  show ?case
  proof (cases i)
    case 0
    then show ?thesis by (auto split: option.splits)
  next
    case (Suc j)
    with Cons.prems have j: "j < length rs" by simp
    show ?thesis
    proof (cases "target r")
      case None
      with Suc Cons.IH [OF j, of seen] show ?thesis by auto
    next
      case (Some t)
      show ?thesis
      proof (cases "id_track t \<in> seen")
        case True
        then have "seen \<union> insert (id_track t) (target_ids (take j rs))
                     = seen \<union> target_ids (take j rs)" by auto
        with Some True Suc Cons.IH [OF j, of seen] show ?thesis by auto
      next
        case False
        have "seen \<union> insert (id_track t) (target_ids (take j rs))
                = insert (id_track t) seen \<union> target_ids (take j rs)" by auto
        with Some False Suc Cons.IH [OF j, of "insert (id_track t) seen"] show ?thesis by auto
      qed
    qed
  qed
qed

lemma matchCandidates_status:
  "status (matchCandidates fuzzy src candidates config) \<noteq> already_exists"
  by (simp add: matchCandidates_def split: prod.splits)

lemma matchTrack_status:
  "matchTrack fuzzy src searchFn config w = (Inr r, w') \<Longrightarrow> status r \<noteq> already_exists"
  by (auto simp: matchTrack_def matchTrack_general_def Let_def matchCandidates_status
           split: option.splits prod.splits sum.splits list.splits if_splits)

lemma existing_check_cases:
  "existing_check existingIds r = r
   \<or> (\<exists>t. target r = Some t \<and> id_track t \<in> existingIds
          \<and> existing_check existingIds r
              = r\<lparr>status := already_exists, existingId := Some (id_track t)\<rparr>)"
  by (auto simp: existing_check_def split: option.splits)

lemma matchTracks_from_already_exists:
  "matchTracks_from fuzzy i n sources searchFn existingIds config onProgress w = (Inr results, w')
   \<Longrightarrow> r \<in> set results \<Longrightarrow> status r = already_exists
   \<Longrightarrow> \<exists>t. target r = Some t \<and> id_track t \<in> existingIds"
proof (induction sources arbitrary: i w results)
  case Nil
  then show ?case by simp
next
  case (Cons s sources)
  from Cons.prems(1) obtain r0 w0 rest where
    m: "matchTrack fuzzy s searchFn config w = (Inr r0, w0)"
    and rest: "matchTracks_from fuzzy (i + 1) n sources searchFn existingIds config onProgress
                 (case onProgress of None \<Rightarrow> w0 | Some report \<Rightarrow> report (i + 1) n w0)
               = (Inr rest, w')"
    and res: "results = existing_check existingIds r0 # rest"
    by (auto simp: Let_def split: prod.splits sum.splits)
  from Cons.prems(2) res consider "r = existing_check existingIds r0" | "r \<in> set rest"
    by auto
  then show ?case
  proof cases
    case 1
    from matchTrack_status [OF m] have "status r0 \<noteq> already_exists" .
    with 1 Cons.prems(3) existing_check_cases [of existingIds r0] show ?thesis
      by auto
  next
    case 2
    from Cons.IH [OF rest 2 Cons.prems(3)] show ?thesis .
  qed
qed

text \<open>
  C1. \<open>already_exists\<close> is terminal. \<open>deduplicateResults\<close> keeps the length of the list and
  rewrites to \<open>already_exists\<close> exactly the results that have a target whose identifier
  is the identifier of the target of an earlier result, whatever their status; every
  other result, and so every result without target, stays as it is. The check of
  \<open>matchTracks\<close> leaves a result without target as it is, and gives a result with status
  \<open>matched\<close> or \<open>low_confidence\<close> the status \<open>already_exists\<close> exactly when the identifier
  of its target is among the existing ones. Neither changes the target.
\<close>

theorem already_exists_needs_target:
  "(target r = None \<longrightarrow> existing_check existingIds r = r)
   \<and> (status r = matched \<or> status r = low_confidence \<longrightarrow> target r = Some t \<longrightarrow>
        existing_check existingIds r
          = (if id_track t \<in> existingIds
             then r\<lparr>status := already_exists, existingId := Some (id_track t)\<rparr> else r))
   \<and> (status r = already_exists \<longrightarrow> status (existing_check existingIds r) = already_exists)
   \<and> target (existing_check existingIds r) = target r
   \<and> length (deduplicateResults rs) = length rs
   \<and> (\<forall>i < length rs.
         deduplicateResults rs ! i =
           (if \<exists>t. target (rs ! i) = Some t \<and> id_track t \<in> target_ids (take i rs)
            then (rs ! i)\<lparr>status := already_exists\<rparr> else rs ! i)
         \<and> (status (rs ! i) = already_exists
              \<longrightarrow> status (deduplicateResults rs ! i) = already_exists)
         \<and> target (deduplicateResults rs ! i) = target (rs ! i))"
proof -
  have a: "target r = None \<longrightarrow> existing_check existingIds r = r"
    by (simp add: existing_check_def)
  have b: "status r = matched \<or> status r = low_confidence \<longrightarrow> target r = Some t \<longrightarrow>
        existing_check existingIds r
          = (if id_track t \<in> existingIds
             then r\<lparr>status := already_exists, existingId := Some (id_track t)\<rparr> else r)"
    by (simp add: existing_check_def)
  have c: "status r = already_exists \<longrightarrow> status (existing_check existingIds r) = already_exists"
    by (simp add: existing_check_def split: option.splits)
  have d: "target (existing_check existingIds r) = target r"
    by (simp add: existing_check_def split: option.splits)
  have e: "length (deduplicateResults rs) = length rs"
    by (simp add: deduplicateResults_def dedup_from_length)
  have f: "\<forall>i < length rs.
         deduplicateResults rs ! i =
           (if \<exists>t. target (rs ! i) = Some t \<and> id_track t \<in> target_ids (take i rs)
            then (rs ! i)\<lparr>status := already_exists\<rparr> else rs ! i)
         \<and> (status (rs ! i) = already_exists
              \<longrightarrow> status (deduplicateResults rs ! i) = already_exists)
         \<and> target (deduplicateResults rs ! i) = target (rs ! i)"
  proof (intro allI impI)
    fix i assume "i < length rs"
    from dedup_from_exact [OF this, of "{}"]
    have x: "deduplicateResults rs ! i =
           (if \<exists>t. target (rs ! i) = Some t \<and> id_track t \<in> target_ids (take i rs)
            then (rs ! i)\<lparr>status := already_exists\<rparr> else rs ! i)"
      by (simp add: deduplicateResults_def)
    then show "deduplicateResults rs ! i =
           (if \<exists>t. target (rs ! i) = Some t \<and> id_track t \<in> target_ids (take i rs)
            then (rs ! i)\<lparr>status := already_exists\<rparr> else rs ! i)
         \<and> (status (rs ! i) = already_exists
              \<longrightarrow> status (deduplicateResults rs ! i) = already_exists)
         \<and> target (deduplicateResults rs ! i) = target (rs ! i)"
      by auto
  qed
  from a b c d e f show ?thesis by blast
qed

theorem already_exists_needs_target_witness:
  "existing_check {js ''t1''} sample_miss = sample_miss
   \<and> matchCandidates exact_metric sample_source [sample_other, sample_same] DEFAULT_MATCH_CONFIG
       = sample_good
   \<and> existing_check {js ''t1''} sample_good
       = sample_good\<lparr>status := already_exists, existingId := Some (js ''t1'')\<rparr>
   \<and> deduplicateResults [sample_hit, sample_miss, sample_weak] ! 0 = sample_hit
   \<and> deduplicateResults [sample_hit, sample_miss, sample_weak] ! 1 = sample_miss
   \<and> deduplicateResults [sample_hit, sample_miss, sample_weak] ! 2
       = sample_weak\<lparr>status := already_exists\<rparr>"
proof -
  have m: "target sample_miss = None"
    by (simp add: sample_miss_def)
  have g: "status sample_good = matched \<or> status sample_good = low_confidence"
    "target sample_good = Some sample_same" "id_track sample_same \<in> {js ''t1''}"
    by (simp_all add: sample_good_def sample_same_def sample_track_def)
  have t: "target sample_hit = Some sample_other" "target sample_weak = Some sample_other"
    "id_track sample_other = js ''t9''"
    by (simp_all add: sample_hit_def sample_weak_def sample_other_def sample_track_def)
  have l: "0 < length [sample_hit, sample_miss, sample_weak]"
    "1 < length [sample_hit, sample_miss, sample_weak]"
    "2 < length [sample_hit, sample_miss, sample_weak]"
    by simp_all
  have k: "take 2 [sample_hit, sample_miss, sample_weak] = [sample_hit, sample_miss]"
    by (simp add: numeral_2_eq_2)
  from already_exists_needs_target [where r = sample_miss and existingIds = "{js ''t1''}"
         and rs = "[sample_hit, sample_miss, sample_weak]"]
       already_exists_needs_target [where r = sample_good and existingIds = "{js ''t1''}"
         and t = sample_same and rs = "[sample_hit, sample_miss, sample_weak]"]
       m g t l k sample_same_match
  show ?thesis by (simp add: sample_good_def)
qed

text \<open>
  So the status before is not always \<open>matched\<close> or \<open>low_confidence\<close>:
  \<open>deduplicateResults\<close> rewrites a \<open>not_found\<close> result that carries a target below the
  threshold.
\<close>

theorem dedup_rewrites_not_found:
  "matchCandidates exact_metric sample_source [sample_other] DEFAULT_MATCH_CONFIG = sample_weak
   \<and> status sample_weak = not_found
   \<and> deduplicateResults [sample_hit, sample_weak]
       = [sample_hit, sample_weak\<lparr>status := already_exists\<rparr>]"
  by (simp add: sample_match deduplicateResults_def sample_weak_def sample_hit_def)

section \<open>The normalizer\<close>

subsection \<open>The matcher of regular expressions\<close>

lemma rmatch_Star_set:
  "set (rmatch (Star a) s)
     = insert s (\<Union>u \<in> {u \<in> set (rmatch a s). length u < length s}. set (rmatch (Star a) u))"
  by (subst rmatch.simps(5)) (auto split: if_splits)

lemma rmatch_suffix: "t \<in> set (rmatch r s) \<Longrightarrow> \<exists>p. s = p @ t"
proof (induction r s arbitrary: t rule: rmatch.induct)
  case (1 p s)
  then show ?case by (cases s) (auto split: if_splits)
next
  case (2 s)
  then show ?case by simp
next
  case (3 a b s)
  from "3.prems" obtain u where u: "u \<in> set (rmatch a s)" and t: "t \<in> set (rmatch b u)"
    by auto
  from "3.IH"(1) [OF u] obtain p where "s = p @ u" by blast
  moreover from "3.IH"(2) [OF u t] obtain q where "u = q @ t" by blast
  ultimately have "s = (p @ q) @ t" by simp
  then show ?case by blast
next
  case (4 a s)
  then show ?case by auto
next
  case (5 a s)
  from "5.prems" consider "t = s"
    | u where "u \<in> set (rmatch a s)" "length u < length s" "t \<in> set (rmatch (Star a) u)"
    by (subst (asm) rmatch_Star_set) auto
  then show ?case
  proof cases
    case 1
    then show ?thesis by simp
  next
    case 2
    from "5.IH"(1) [OF 2(1)] obtain p where "s = p @ u" by blast
    moreover from "5.IH"(2) [OF 2(1) 2(2) 2(3)] obtain q where "u = q @ t" by blast
    ultimately have "s = (p @ q) @ t" by simp
    then show ?thesis by blast
  qed
next
  case (6 s)
  then show ?case by (auto split: if_splits)
qed

lemma rmatch_length: "t \<in> set (rmatch r s) \<Longrightarrow> length t \<le> length s"
proof -
  assume "t \<in> set (rmatch r s)"
  then obtain p where "s = p @ t" using rmatch_suffix by blast
  then show ?thesis by simp
qed

lemma rmatch_take: "t \<in> set (rmatch r s) \<Longrightarrow> take (length s - length t) s @ t = s"
proof -
  assume "t \<in> set (rmatch r s)"
  then obtain p where "s = p @ t" using rmatch_suffix by blast
  then show ?thesis by simp
qed

lemma rmatch_shorter:
  "\<not> nullable r \<Longrightarrow> t \<in> set (rmatch r s) \<Longrightarrow> length t < length s"
proof (induction r arbitrary: s t)
  case (Chr p)
  then show ?case by (cases s) (auto split: if_splits)
next
  case (Seq a b)
  from Seq.prems(2) obtain u where u: "u \<in> set (rmatch a s)" and t: "t \<in> set (rmatch b u)"
    by auto
  from Seq.prems(1) consider "\<not> nullable a" | "\<not> nullable b" by auto
  then show ?case
  proof cases
    case 1
    from Seq.IH(1) [OF 1 u] rmatch_length [OF t] show ?thesis by simp
  next
    case 2
    from Seq.IH(2) [OF 2 t] rmatch_length [OF u] show ?thesis by simp
  qed
qed simp_all


lemma replace_all_Nil: "rmatch r [] = [] \<Longrightarrow> replace_all r f [] = []"
  by (subst replace_all.simps) simp

lemma replace_all_skip:
  "rmatch r (c # cs) = [] \<Longrightarrow> replace_all r f (c # cs) = c # replace_all r f cs"
  by (subst replace_all.simps) simp

lemma replace_all_hit:
  "rmatch r s = t # ts \<Longrightarrow> length t < length s \<Longrightarrow>
   replace_all r f s = f (take (length s - length t) s) @ replace_all r f t"
  by (subst replace_all.simps) simp

lemma replace_all_empty_Nil:
  "rmatch r [] = t # ts \<Longrightarrow> replace_all r f [] = f []"
  by (subst replace_all.simps) simp

lemma replace_all_empty_Cons:
  "rmatch r (c # cs) = t # ts \<Longrightarrow> \<not> length t < length (c # cs) \<Longrightarrow>
   replace_all r f (c # cs) = f [] @ c # replace_all r f cs"
  by (subst replace_all.simps) simp

lemma replace_first_Nil: "rmatch r [] = [] \<Longrightarrow> replace_first r f [] = []"
  by (subst replace_first.simps) simp

lemma replace_first_skip:
  "rmatch r (c # cs) = [] \<Longrightarrow> replace_first r f (c # cs) = c # replace_first r f cs"
  by (subst replace_first.simps) simp

lemma replace_first_hit:
  "rmatch r s = t # ts \<Longrightarrow> replace_first r f s = f (take (length s - length t) s) @ t"
  by (subst replace_first.simps) simp

lemma replace_all_absent: "\<not> occurs r s \<Longrightarrow> replace_all r f s = s"
  by (induction s) (simp_all add: replace_all_Nil replace_all_skip)

lemma replace_first_absent: "\<not> occurs r s \<Longrightarrow> replace_first r f s = s"
  by (induction s) (simp_all add: replace_first_Nil replace_first_skip)

lemma occurs_iff: "occurs r s \<longleftrightarrow> (\<exists>p t. s = p @ t \<and> rmatch r t \<noteq> [])"
proof (induction s)
  case Nil
  then show ?case by simp
next
  case (Cons c cs)
  show ?case
  proof
    assume "occurs r (c # cs)"
    then consider "rmatch r (c # cs) \<noteq> []" | "occurs r cs" by auto
    then show "\<exists>p t. c # cs = p @ t \<and> rmatch r t \<noteq> []"
    proof cases
      case 1
      then have "c # cs = [] @ (c # cs) \<and> rmatch r (c # cs) \<noteq> []" by simp
      then show ?thesis by blast
    next
      case 2
      with Cons.IH obtain p t where "cs = p @ t" "rmatch r t \<noteq> []" by blast
      then have "c # cs = (c # p) @ t \<and> rmatch r t \<noteq> []" by simp
      then show ?thesis by blast
    qed
  next
    assume "\<exists>p t. c # cs = p @ t \<and> rmatch r t \<noteq> []"
    then obtain p t where pt: "c # cs = p @ t" "rmatch r t \<noteq> []" by blast
    show "occurs r (c # cs)"
    proof (cases p)
      case Nil
      with pt show ?thesis by auto
    next
      case (Cons d q)
      with pt have "cs = q @ t" by simp
      with pt(2) Cons.IH show ?thesis by auto
    qed
  qed
qed

lemma replace_all_pred:
  assumes "\<And>m. list_all Q m \<Longrightarrow> list_all Q (f m)"
  shows "list_all Q s \<Longrightarrow> list_all Q (replace_all r f s)"
proof (induction s rule: length_induct)
  case (1 s)
  have e: "list_all Q (f [])"
    using assms [of "[]"] by simp
  show ?case
  proof (cases "rmatch r s")
    case Nil
    show ?thesis
    proof (cases s)
      case Nil
      with \<open>rmatch r s = []\<close> show ?thesis by (simp add: replace_all_Nil)
    next
      case (Cons c cs)
      with "1.prems" "1.IH" have "list_all Q (replace_all r f cs)" by simp
      with Nil Cons "1.prems" show ?thesis
        by (simp add: replace_all_skip)
    qed
  next
    case (Cons t ts)
    then have ts: "t \<in> set (rmatch r s)" by simp
    from rmatch_take [OF ts] have s: "take (length s - length t) s @ t = s" .
    have "list_all Q (take (length s - length t) s @ t)"
      using "1.prems" s by simp
    then have q: "list_all Q (take (length s - length t) s)" "list_all Q t"
      by simp_all
    show ?thesis
    proof (cases "length t < length s")
      case True
      with "1.IH" q(2) have "list_all Q (replace_all r f t)" by simp
      with assms [OF q(1)] Cons True show ?thesis by (simp add: replace_all_hit)
    next
      case False
      show ?thesis
      proof (cases s)
        case Nil
        with Cons e show ?thesis by (simp add: replace_all_empty_Nil)
      next
        case (Cons c cs)
        with "1.prems" "1.IH" have "list_all Q (replace_all r f cs)" by simp
        with \<open>rmatch r s = t # ts\<close> False Cons e "1.prems" show ?thesis
          by (simp add: replace_all_empty_Cons)
      qed
    qed
  qed
qed

lemma replace_first_pred:
  assumes "\<And>m. list_all Q m \<Longrightarrow> list_all Q (f m)"
  shows "list_all Q s \<Longrightarrow> list_all Q (replace_first r f s)"
proof (induction s)
  case Nil
  show ?case
  proof (cases "rmatch r []")
    case Nil
    then show ?thesis by (simp add: replace_first_Nil)
  next
    case (Cons t ts)
    then have ts: "t \<in> set (rmatch r [])" by simp
    from rmatch_length [OF ts] have "t = []" by simp
    with Cons assms [of "[]"] show ?thesis by (simp add: replace_first_hit)
  qed
next
  case (Cons c cs)
  show ?case
  proof (cases "rmatch r (c # cs)")
    case Nil
    with Cons show ?thesis by (simp add: replace_first_skip)
  next
    case (Cons t ts)
    then have ts: "t \<in> set (rmatch r (c # cs))" by simp
    from rmatch_take [OF ts]
    have s: "take (length (c # cs) - length t) (c # cs) @ t = c # cs" .
    have "list_all Q (take (length (c # cs) - length t) (c # cs) @ t)"
      using Cons.prems s by simp
    then have q: "list_all Q (take (length (c # cs) - length t) (c # cs))" "list_all Q t"
      by simp_all
    from assms [OF q(1)] q(2) Cons show ?thesis
      by (simp add: replace_first_hit)
  qed
qed

subsection \<open>White space and trimming\<close>

lemma replace_all_Chr:
  "replace_all (Chr p) (\<lambda>_. [d]) s = map (\<lambda>c. if p c then d else c) s"
proof (induction s)
  case Nil
  then show ?case by (simp add: replace_all_Nil)
next
  case (Cons c cs)
  show ?case
  proof (cases "p c")
    case True
    then have "rmatch (Chr p) (c # cs) = [cs]" by simp
    from replace_all_hit [OF this] Cons True show ?thesis by simp
  next
    case False
    then have "rmatch (Chr p) (c # cs) = []" by simp
    from replace_all_skip [OF this] Cons False show ?thesis by simp
  qed
qed

lemma rmatch_Star_Chr: "\<exists>ts. rmatch (Star (Chr p)) s = dropWhile p s # ts"
proof (induction s)
  case Nil
  then show ?case by (simp add: rmatch.simps(5))
next
  case (Cons c cs)
  then obtain ts where ts: "rmatch (Star (Chr p)) cs = dropWhile p cs # ts" by blast
  show ?case
  proof (cases "p c")
    case True
    with ts have "rmatch (Star (Chr p)) (c # cs) = dropWhile p (c # cs) # (ts @ [c # cs])"
      by (subst rmatch.simps(5)) simp
    then show ?thesis by blast
  next
    case False
    then have "rmatch (Star (Chr p)) (c # cs) = dropWhile p (c # cs) # []"
      by (subst rmatch.simps(5)) simp
    then show ?thesis by blast
  qed
qed

lemma rmatch_spaces_Nil: "rmatch re_spaces [] = []"
  by (simp add: re_spaces_def Plus_def)

lemma rmatch_spaces_skip: "\<not> ws c \<Longrightarrow> rmatch re_spaces (c # cs) = []"
  by (simp add: re_spaces_def Plus_def)

lemma rmatch_spaces_hit: "ws c \<Longrightarrow> \<exists>ts. rmatch re_spaces (c # cs) = dropWhile ws cs # ts"
  using rmatch_Star_Chr [of ws cs] by (auto simp: re_spaces_def Plus_def)

lemma collapse_Nil: "replace_all re_spaces f [] = []"
  by (simp add: replace_all_Nil rmatch_spaces_Nil)

lemma collapse_skip:
  "\<not> ws c \<Longrightarrow> replace_all re_spaces f (c # cs) = c # replace_all re_spaces f cs"
  by (simp add: replace_all_skip rmatch_spaces_skip)

lemma collapse_hit:
  assumes "ws c"
  shows "replace_all re_spaces (\<lambda>_. d) (c # cs) = d @ replace_all re_spaces (\<lambda>_. d) (dropWhile ws cs)"
proof -
  from rmatch_spaces_hit [OF assms] obtain ts where
    ts: "rmatch re_spaces (c # cs) = dropWhile ws cs # ts" by blast
  have "length (dropWhile ws cs) < length (c # cs)"
    using length_dropWhile_le [of ws cs] by simp
  from replace_all_hit [OF ts this] show ?thesis by simp
qed

lemma spaced_tl: "spaced (c # s) \<Longrightarrow> spaced s"
  by (cases s) simp_all

lemma spaced_skip: "\<not> ws c \<Longrightarrow> spaced (c # s) = spaced s"
  by (cases s) simp_all

lemma spaced_space: "spaced (32 # s) = ((s = [] \<or> \<not> ws (hd s)) \<and> spaced s)"
  by (cases s) (auto simp: ws_def)

lemma collapse_spaced: "spaced (replace_all re_spaces (\<lambda>_. [32]) s)"
proof (induction s rule: length_induct)
  case (1 s)
  show ?case
  proof (cases s)
    case Nil
    then show ?thesis by (simp add: collapse_Nil)
  next
    case (Cons c cs)
    show ?thesis
    proof (cases "ws c")
      case False
      with Cons "1.IH" show ?thesis by (simp add: collapse_skip spaced_skip)
    next
      case True
      have l: "length (dropWhile ws cs) < length s"
        using Cons length_dropWhile_le [of ws cs] by simp
      with "1.IH" have sp: "spaced (replace_all re_spaces (\<lambda>_. [32]) (dropWhile ws cs))"
        by simp
      have "replace_all re_spaces (\<lambda>_. [32]) (dropWhile ws cs) = []
            \<or> \<not> ws (hd (replace_all re_spaces (\<lambda>_. [32]) (dropWhile ws cs)))"
      proof (cases "dropWhile ws cs")
        case Nil
        show ?thesis unfolding Nil by (simp add: collapse_Nil)
      next
        case (Cons e es)
        then have "\<not> ws e" using hd_dropWhile [of ws cs] by auto
        then show ?thesis unfolding Cons by (simp add: collapse_skip)
      qed
      with sp True Cons show ?thesis
        by (simp add: collapse_hit spaced_space)
    qed
  qed
qed

lemma spaced_collapse: "spaced s \<Longrightarrow> replace_all re_spaces (\<lambda>_. [32]) s = s"
proof (induction s)
  case Nil
  then show ?case by (simp add: collapse_Nil)
next
  case (Cons c cs)
  from Cons.prems have cs: "spaced cs" by (rule spaced_tl)
  show ?case
  proof (cases "ws c")
    case False
    with Cons.IH [OF cs] show ?thesis by (simp add: collapse_skip)
  next
    case True
    with Cons.prems have c: "c = 32" and h: "cs = [] \<or> \<not> ws (hd cs)"
      by (cases cs; simp)+
    from h have "dropWhile ws cs = cs" by (cases cs) auto
    with True c Cons.IH [OF cs] show ?thesis by (simp add: collapse_hit)
  qed
qed

lemma spaced_append: "spaced (a @ b) \<Longrightarrow> spaced a \<and> spaced b"
proof (induction a rule: spaced.induct)
  case 1
  then show ?case by simp
next
  case (2 c)
  then show ?case by (cases b) simp_all
next
  case (3 c d s)
  then show ?case by simp
qed

lemma trim_split: "\<exists>a b. s = a @ trim s @ b"
proof -
  have 1: "s = takeWhile ws s @ dropWhile ws s" by simp
  have "rev (dropWhile ws s)
          = takeWhile ws (rev (dropWhile ws s)) @ dropWhile ws (rev (dropWhile ws s))"
    by simp
  then have "dropWhile ws s
          = rev (dropWhile ws (rev (dropWhile ws s))) @ rev (takeWhile ws (rev (dropWhile ws s)))"
    by (metis rev_append rev_rev_ident)
  then have "s = takeWhile ws s @ trim s @ rev (takeWhile ws (rev (dropWhile ws s)))"
    using 1 by (simp add: trim_def)
  then show ?thesis by blast
qed

lemma trim_spaced: "spaced s \<Longrightarrow> spaced (trim s)"
proof -
  assume s: "spaced s"
  from trim_split obtain a b where "s = a @ trim s @ b" by blast
  with s have "spaced (a @ trim s @ b)" by simp
  then have "spaced (trim s @ b)" using spaced_append by blast
  then show ?thesis using spaced_append by blast
qed

lemma trim_set: "set (trim s) \<subseteq> set s"
proof -
  from trim_split obtain a b where "s = a @ trim s @ b" by blast
  then have "set s = set a \<union> set (trim s) \<union> set b" by (metis set_append sup_assoc)
  then show ?thesis by blast
qed

lemma trim_ends: "trim s = [] \<or> (\<not> ws (hd (trim s)) \<and> \<not> ws (last (trim s)))"
proof (cases "trim s = []")
  case True
  then show ?thesis by simp
next
  case False
  define u where "u = dropWhile ws s"
  define v where "v = dropWhile ws (rev u)"
  have t: "trim s = rev v" by (simp add: trim_def u_def v_def)
  with False have v: "v \<noteq> []" by simp
  then have 1: "\<not> ws (hd v)" unfolding v_def using hd_dropWhile by blast
  from v have "rev u \<noteq> []" unfolding v_def by auto
  then have un: "u \<noteq> []" by simp
  then have 2: "\<not> ws (hd u)" unfolding u_def using hd_dropWhile by blast
  have "rev u = takeWhile ws (rev u) @ v" by (simp add: v_def)
  with v have "last (rev u) = last v" by (metis last_appendR)
  with un have "hd u = last v" by (simp add: last_rev)
  with 1 2 t v show ?thesis by (simp add: hd_rev last_rev)
qed

lemma trim_idem_ends: "s = [] \<or> (\<not> ws (hd s) \<and> \<not> ws (last s)) \<Longrightarrow> trim s = s"
proof (cases s)
  case Nil
  then show ?thesis by (simp add: trim_def)
next
  case (Cons c cs)
  assume "s = [] \<or> (\<not> ws (hd s) \<and> \<not> ws (last s))"
  with Cons have h: "\<not> ws (hd s)" and l: "\<not> ws (last s)" and n: "s \<noteq> []" by auto
  from h n have 1: "dropWhile ws s = s" by (cases s) auto
  from l n have "\<not> ws (hd (rev s))" by (simp add: hd_rev)
  with n have 2: "dropWhile ws (rev s) = rev s" by (cases "rev s") auto
  from 1 2 show ?thesis by (simp add: trim_def)
qed

lemma trim_trim: "trim (trim s) = trim s"
  using trim_ends [of s] by (rule trim_idem_ends)

lemma toLowerCase_no_upper: "list_all (\<lambda>c. \<not> is_upper c) (toLowerCase x)"
  by (induction x) (auto simp: toLowerCase_def lower_cu_def is_upper_def)

lemma toLowerCase_fixed: "list_all (\<lambda>c. \<not> is_upper c) y \<Longrightarrow> toLowerCase y = y"
  by (simp add: toLowerCase_def list_all_iff lower_cu_def map_idI)

lemma trim_pred: "list_all Q s \<Longrightarrow> list_all Q (trim s)"
  using trim_set [of s] by (auto simp: list_all_iff)

lemma replace_const_pred:
  "list_all Q d \<Longrightarrow> list_all Q s \<Longrightarrow> list_all Q (replace_all r (\<lambda>_. d) s)"
  by (rule replace_all_pred) simp_all

lemma replace_first_const_pred:
  "list_all Q d \<Longrightarrow> list_all Q s \<Longrightarrow> list_all Q (replace_first r (\<lambda>_. d) s)"
  by (rule replace_first_pred) simp_all

lemma camel_space_pred:
  "Q 32 \<Longrightarrow> list_all Q s \<Longrightarrow> list_all Q (replace_all r camel_space s)"
proof (rule replace_all_pred)
  fix m assume "Q 32" "list_all Q m"
  then show "list_all Q (camel_space m)"
    by (auto simp: camel_space_def js_def list_all_iff dest: in_set_takeD in_set_dropD)
qed

lemma same_char_replace: "replace_all (Chr (\<lambda>c. c = d \<or> c = d)) (\<lambda>_. [d]) s = s"
  by (simp add: replace_all_Chr map_idI)

lemma apostrophe_id: "replace_all re_apostrophe (\<lambda>_. js [CHR 0x27]) s = s"
  using same_char_replace [of 39 s] by (simp add: re_apostrophe_def js_def)

lemma quote_id: "replace_all re_quote (\<lambda>_. js [CHR 0x22]) s = s"
  using same_char_replace [of 34 s] by (simp add: re_quote_def js_def)

lemma space_js: "js '' '' = [32]"
  by (simp add: js_def)

subsection \<open>The title\<close>

lemma title_spaced: "spaced (normalizeTrackTitle_with lower x)"
  unfolding normalizeTrackTitle_with_def Let_def space_js
  by (intro trim_spaced collapse_spaced)

lemma title_ends:
  "normalizeTrackTitle_with lower x = []
   \<or> (\<not> ws (hd (normalizeTrackTitle_with lower x))
       \<and> \<not> ws (last (normalizeTrackTitle_with lower x)))"
  unfolding normalizeTrackTitle_with_def Let_def by (rule trim_ends)

lemma title_fixed:
  assumes "\<forall>r \<in> set title_noise. \<not> occurs r y"
    and "lower y = y" and "spaced y"
    and "y = [] \<or> (\<not> ws (hd y) \<and> \<not> ws (last y))"
  shows "normalizeTrackTitle_with lower y = y"
proof -
  from assms(1) have
    "\<not> occurs re_feat_paren y" "\<not> occurs re_ft_paren y" "\<not> occurs re_feat_bracket y"
    "\<not> occurs re_video y" "\<not> occurs re_official_audio y" "\<not> occurs re_official_paren y"
    "\<not> occurs re_lyrics y" "\<not> occurs re_audio y" "\<not> occurs re_visualizer y"
    "\<not> occurs re_pipe y"
    by (simp_all add: title_noise_def)
  then show ?thesis
    unfolding normalizeTrackTitle_with_def Let_def
    by (simp add: assms(2) replace_all_absent apostrophe_id quote_id
        space_js spaced_collapse [OF assms(3)] trim_idem_ends [OF assms(4)])
qed

lemma replace_all_removes:
  assumes "\<And>cs. rmatch r (c # cs) \<noteq> []" and "\<not> nullable r" and "\<And>m. c \<notin> set (f m)"
  shows "c \<notin> set (replace_all r f s)"
proof (induction s rule: length_induct)
  case (1 s)
  show ?case
  proof (cases "rmatch r s")
    case Nil
    show ?thesis
    proof (cases s)
      case Nil
      with \<open>rmatch r s = []\<close> show ?thesis by (simp add: replace_all_Nil)
    next
      case (Cons d ds)
      with Nil assms(1) [of ds] have "d \<noteq> c" by auto
      moreover from "1.IH" Cons have "c \<notin> set (replace_all r f ds)" by simp
      ultimately show ?thesis using Nil Cons by (simp add: replace_all_skip)
    qed
  next
    case (Cons t ts)
    then have "t \<in> set (rmatch r s)" by simp
    from rmatch_shorter [OF assms(2) this] have l: "length t < length s" .
    with "1.IH" have "c \<notin> set (replace_all r f t)" by simp
    with assms(3) Cons l show ?thesis by (simp add: replace_all_hit)
  qed
qed

lemma rmatch_needs_char:
  assumes "rmatch (Seq a (Seq (Chr p) b)) t \<noteq> []"
  shows "\<exists>c \<in> set t. p c"
proof -
  from assms obtain u where u: "u \<in> set (rmatch a t)" and n: "rmatch (Seq (Chr p) b) u \<noteq> []"
    by auto
  from n obtain c cs where c: "u = c # cs" "p c"
    by (cases u) (auto split: if_splits)
  from rmatch_suffix [OF u] obtain q where "t = q @ u" by blast
  with c show ?thesis by auto
qed

lemma absent_without_char:
  assumes "\<forall>c \<in> set s. \<not> p c"
  shows "\<not> occurs (Seq a (Seq (Chr p) b)) s"
proof
  assume "occurs (Seq a (Seq (Chr p) b)) s"
  then obtain q t where s: "s = q @ t" and "rmatch (Seq a (Seq (Chr p) b)) t \<noteq> []"
    unfolding occurs_iff by blast
  from rmatch_needs_char [OF this(2)] obtain c where "c \<in> set t" "p c" by blast
  with s assms show False by auto
qed

lemma ampersand_absent: "list_all (\<lambda>c. c \<noteq> 38) s \<Longrightarrow> \<not> occurs re_ampersand s"
  unfolding re_ampersand_def seqs_def ch_def
  by (simp add: absent_without_char list_all_iff)

lemma comma_absent: "list_all (\<lambda>c. c \<noteq> 44) s \<Longrightarrow> \<not> occurs re_comma s"
  unfolding re_comma_def seqs_def ch_def
  by (simp add: absent_without_char list_all_iff)

lemma camel_absent: "list_all (\<lambda>c. \<not> is_upper c) s \<Longrightarrow> \<not> occurs re_camel s"
proof -
  assume a: "list_all (\<lambda>c. \<not> is_upper c) s"
  have "re_camel = Seq (Chr is_lower) (Seq (Chr is_upper) Eps)"
    by (simp add: re_camel_def seqs_def)
  moreover have "\<not> occurs (Seq (Chr is_lower) (Seq (Chr is_upper) Eps)) s"
    using a by (intro absent_without_char) (simp add: list_all_iff)
  ultimately show ?thesis by simp
qed

lemma rmatch_Star_nonempty: "rmatch (Star a) s \<noteq> []"
  by (subst rmatch.simps(5)) simp

lemma rmatch_Star_stay: "\<not> p c \<Longrightarrow> rmatch (Star (Chr p)) (c # cs) = [c # cs]"
  by (subst rmatch.simps(5)) simp

lemma ampersand_matches: "rmatch re_ampersand (38 # cs) \<noteq> []"
  using rmatch_Star_nonempty [of "Chr ws" cs]
  by (simp add: re_ampersand_def seqs_def ch_def rmatch_Star_stay ws_def)

lemma comma_matches: "rmatch re_comma (44 # cs) \<noteq> []"
  using rmatch_Star_nonempty [of "Chr ws" cs]
  by (simp add: re_comma_def seqs_def ch_def rmatch_Star_stay ws_def)

lemma ampersand_removed: "list_all (\<lambda>c. c \<noteq> 38) (replace_all re_ampersand (\<lambda>_. js '' and '') s)"
proof -
  have "38 \<notin> set (replace_all re_ampersand (\<lambda>_. js '' and '') s)"
    by (rule replace_all_removes [OF ampersand_matches])
       (simp_all add: re_ampersand_def seqs_def ch_def js_def)
  then show ?thesis by (auto simp: list_all_iff)
qed

lemma comma_removed: "list_all (\<lambda>c. c \<noteq> 44) (replace_all re_comma (\<lambda>_. js '' and '') s)"
proof -
  have "44 \<notin> set (replace_all re_comma (\<lambda>_. js '' and '') s)"
    by (rule replace_all_removes [OF comma_matches])
       (simp_all add: re_comma_def seqs_def ch_def js_def)
  then show ?thesis by (auto simp: list_all_iff)
qed

subsection \<open>The artist name\<close>

lemma artist_no_ampersand: "list_all (\<lambda>c. c \<noteq> 38) (normalizeArtistName_with lower x)"
  unfolding normalizeArtistName_with_def Let_def apostrophe_id
  by (intro trim_pred replace_const_pred ampersand_removed)
     (simp_all add: js_def)

lemma artist_no_comma: "list_all (\<lambda>c. c \<noteq> 44) (normalizeArtistName_with lower x)"
  unfolding normalizeArtistName_with_def Let_def apostrophe_id
  by (intro trim_pred replace_const_pred comma_removed)
     (simp_all add: js_def)

lemma artist_spaced: "spaced (normalizeArtistName_with lower x)"
  unfolding normalizeArtistName_with_def Let_def space_js
  by (intro trim_spaced collapse_spaced)

lemma artist_ends:
  "normalizeArtistName_with lower x = []
   \<or> (\<not> ws (hd (normalizeArtistName_with lower x))
       \<and> \<not> ws (last (normalizeArtistName_with lower x)))"
  unfolding normalizeArtistName_with_def Let_def by (rule trim_ends)

lemma artist_tail_fixed:
  assumes "list_all (\<lambda>c. \<not> is_upper c) y" and "list_all (\<lambda>c. c \<noteq> 38) y"
    and "list_all (\<lambda>c. c \<noteq> 44) y"
  shows "replace_all re_apostrophe (\<lambda>_. js [CHR 0x27])
           (replace_all re_comma (\<lambda>_. js '' and '')
              (replace_all re_ampersand (\<lambda>_. js '' and '')
                 (replace_all re_camel camel_space y))) = y"
  by (simp add: apostrophe_id replace_all_absent camel_absent [OF assms(1)]
      ampersand_absent [OF assms(2)] comma_absent [OF assms(3)])

lemma artist_fixed:
  assumes "\<forall>r \<in> set artist_suffixes. \<not> occurs r y"
    and "lower y = y"
    and "list_all (\<lambda>c. \<not> is_upper c) y" and "list_all (\<lambda>c. c \<noteq> 38) y"
    and "list_all (\<lambda>c. c \<noteq> 44) y" and "spaced y"
    and "y = [] \<or> (\<not> ws (hd y) \<and> \<not> ws (last y))"
  shows "normalizeArtistName_with lower y = y"
proof -
  from assms(1) have "\<not> occurs re_vevo y" "\<not> occurs re_topic y" "\<not> occurs re_official y"
    by (simp_all add: artist_suffixes_def)
  then show ?thesis
    unfolding normalizeArtistName_with_def Let_def
    by (simp add: assms(2) replace_first_absent
        artist_tail_fixed [OF assms(3,4,5)] space_js spaced_collapse [OF assms(6)]
        trim_idem_ends [OF assms(7)])
qed

subsection \<open>Stripping shortens\<close>

lemma replace_all_length:
  assumes "\<not> nullable r" and "\<And>m. length (f m) \<le> 1"
  shows "length (replace_all r f s) \<le> length s"
proof (induction s rule: length_induct)
  case (1 s)
  show ?case
  proof (cases "rmatch r s")
    case Nil
    show ?thesis
    proof (cases s)
      case Nil
      with \<open>rmatch r s = []\<close> show ?thesis by (simp add: replace_all_Nil)
    next
      case (Cons d ds)
      with "1.IH" have "length (replace_all r f ds) \<le> length ds" by simp
      with Nil Cons show ?thesis by (simp add: replace_all_skip)
    qed
  next
    case (Cons t ts)
    then have "t \<in> set (rmatch r s)" by simp
    from rmatch_shorter [OF assms(1) this] have l: "length t < length s" .
    with "1.IH" have "length (replace_all r f t) \<le> length t" by simp
    with assms(2) [of "take (length s - length t) s"] Cons l show ?thesis
      by (simp add: replace_all_hit)
  qed
qed

lemma replace_all_shrinks:
  assumes "\<not> nullable r" and "occurs r s"
  shows "length (replace_all r (\<lambda>_. []) s) < length s"
  using assms(2)
proof (induction s)
  case Nil
  then obtain t where "t \<in> set (rmatch r [])" by (cases "rmatch r []") auto
  from rmatch_shorter [OF assms(1) this] show ?case by simp
next
  case (Cons c cs)
  show ?case
  proof (cases "rmatch r (c # cs)")
    case Nil
    with Cons show ?thesis by (simp add: replace_all_skip)
  next
    case (Cons t ts)
    then have "t \<in> set (rmatch r (c # cs))" by simp
    from rmatch_shorter [OF assms(1) this] have l: "length t < length (c # cs)" .
    have "length (replace_all r (\<lambda>_. []) t) \<le> length t"
      by (rule replace_all_length [OF assms(1)]) simp
    with Cons l show ?thesis by (simp add: replace_all_hit)
  qed
qed

lemma replace_first_length: "length (replace_first r (\<lambda>_. []) s) \<le> length s"
proof (induction s)
  case Nil
  show ?case
  proof (cases "rmatch r []")
    case Nil
    then show ?thesis by (simp add: replace_first_Nil)
  next
    case (Cons t ts)
    then have "t \<in> set (rmatch r [])" by simp
    from rmatch_length [OF this] Cons show ?thesis by (simp add: replace_first_hit)
  qed
next
  case (Cons c cs)
  show ?case
  proof (cases "rmatch r (c # cs)")
    case Nil
    with Cons show ?thesis by (simp add: replace_first_skip)
  next
    case (Cons t ts)
    then have "t \<in> set (rmatch r (c # cs))" by simp
    from rmatch_length [OF this] Cons show ?thesis by (simp add: replace_first_hit)
  qed
qed

lemma replace_first_shrinks:
  assumes "\<not> nullable r" and "occurs r s"
  shows "length (replace_first r (\<lambda>_. []) s) < length s"
  using assms(2)
proof (induction s)
  case Nil
  then obtain t where "t \<in> set (rmatch r [])" by (cases "rmatch r []") auto
  from rmatch_shorter [OF assms(1) this] show ?case by simp
next
  case (Cons c cs)
  show ?case
  proof (cases "rmatch r (c # cs)")
    case Nil
    with Cons show ?thesis by (simp add: replace_first_skip)
  next
    case (Cons t ts)
    then have "t \<in> set (rmatch r (c # cs))" by simp
    from rmatch_shorter [OF assms(1) this] Cons show ?thesis by (simp add: replace_first_hit)
  qed
qed

lemma trim_length: "length (trim s) \<le> length s"
proof -
  from trim_split obtain a b where "s = a @ trim s @ b" by blast
  then have "length s = length a + length (trim s) + length b"
    by (metis length_append add.assoc)
  then show ?thesis by simp
qed

lemma strip_all_length:
  "\<forall>r \<in> set rs. \<not> nullable r \<Longrightarrow>
   length (foldl (\<lambda>s r. replace_all r (\<lambda>_. []) s) s rs) \<le> length s"
proof (induction rs arbitrary: s)
  case Nil
  then show ?case by simp
next
  case (Cons r rs)
  have "length (replace_all r (\<lambda>_. []) s) \<le> length s"
    using Cons.prems by (intro replace_all_length) simp_all
  moreover have "length (foldl (\<lambda>s r. replace_all r (\<lambda>_. []) s) (replace_all r (\<lambda>_. []) s) rs)
                   \<le> length (replace_all r (\<lambda>_. []) s)"
    using Cons.prems by (intro Cons.IH) simp
  ultimately show ?case by simp
qed

lemma strip_all_shrinks:
  "\<forall>r \<in> set rs. \<not> nullable r \<Longrightarrow> \<exists>r \<in> set rs. occurs r s \<Longrightarrow>
   length (foldl (\<lambda>s r. replace_all r (\<lambda>_. []) s) s rs) < length s"
proof (induction rs arbitrary: s)
  case Nil
  then show ?case by simp
next
  case (Cons r rs)
  from Cons.prems(1) have n: "\<not> nullable r" and ns: "\<forall>r \<in> set rs. \<not> nullable r" by simp_all
  show ?case
  proof (cases "occurs r s")
    case True
    from replace_all_shrinks [OF n True] strip_all_length [OF ns, of "replace_all r (\<lambda>_. []) s"]
    show ?thesis by simp
  next
    case False
    with Cons.prems(2) have "\<exists>r \<in> set rs. occurs r s" by simp
    from Cons.IH [OF ns this] replace_all_absent [OF False] show ?thesis by simp
  qed
qed

lemma strip_first_pred:
  "list_all Q s \<Longrightarrow> list_all Q (foldl (\<lambda>s r. replace_first r (\<lambda>_. []) s) s rs)"
  by (induction rs arbitrary: s) (simp_all add: replace_first_const_pred)

lemma strip_first_length:
  "length (foldl (\<lambda>s r. replace_first r (\<lambda>_. []) s) s rs) \<le> length s"
proof (induction rs arbitrary: s)
  case Nil
  then show ?case by simp
next
  case (Cons r rs)
  from Cons.IH [of "replace_first r (\<lambda>_. []) s"] replace_first_length [of r s]
  show ?case by simp
qed

lemma strip_first_shrinks:
  "\<forall>r \<in> set rs. \<not> nullable r \<Longrightarrow> \<exists>r \<in> set rs. occurs r s \<Longrightarrow>
   length (foldl (\<lambda>s r. replace_first r (\<lambda>_. []) s) s rs) < length s"
proof (induction rs arbitrary: s)
  case Nil
  then show ?case by simp
next
  case (Cons r rs)
  from Cons.prems(1) have n: "\<not> nullable r" and ns: "\<forall>r \<in> set rs. \<not> nullable r" by simp_all
  show ?case
  proof (cases "occurs r s")
    case True
    from replace_first_shrinks [OF n True] strip_first_length [where rs = rs and s = "replace_first r (\<lambda>_. []) s"]
    show ?thesis by simp
  next
    case False
    with Cons.prems(2) have "\<exists>r \<in> set rs. occurs r s" by simp
    from Cons.IH [OF ns this] replace_first_absent [OF False] show ?thesis by simp
  qed
qed

lemma title_noise_not_nullable: "\<forall>r \<in> set title_noise. \<not> nullable r"
  by (simp add: title_noise_def re_feat_paren_def re_ft_paren_def re_feat_bracket_def
      re_video_def re_official_audio_def re_official_paren_def re_lyrics_def re_audio_def
      re_visualizer_def re_pipe_def seqs_def liti_def chi_def ch_def dash_def Plus_def)

lemma artist_suffixes_not_nullable: "\<forall>r \<in> set artist_suffixes. \<not> nullable r"
  by (simp add: artist_suffixes_def re_vevo_def re_topic_def re_official_def seqs_def
      liti_def chi_def ch_def)

lemma spaces_not_nullable: "\<not> nullable re_spaces"
  by (simp add: re_spaces_def Plus_def)

lemma title_as_fold:
  "normalizeTrackTitle_with lower x
     = trim (replace_all re_spaces (\<lambda>_. [32])
         (foldl (\<lambda>s r. replace_all r (\<lambda>_. []) s) (lower x) title_noise))"
  by (simp add: normalizeTrackTitle_with_def Let_def apostrophe_id quote_id space_js
      title_noise_def)

lemma artist_as_fold:
  "normalizeArtistName_with lower x
     = trim (replace_all re_spaces (\<lambda>_. [32])
         (replace_all re_apostrophe (\<lambda>_. js [CHR 0x27])
           (replace_all re_comma (\<lambda>_. js '' and '')
             (replace_all re_ampersand (\<lambda>_. js '' and '')
               (replace_all re_camel camel_space
                 (foldl (\<lambda>s r. replace_first r (\<lambda>_. []) s) (lower x) artist_suffixes))))))"
  by (simp add: normalizeArtistName_with_def Let_def space_js artist_suffixes_def)

lemma title_shrinks:
  assumes "lower y = y" and "\<exists>r \<in> set title_noise. occurs r y"
  shows "length (normalizeTrackTitle_with lower y) < length y"
proof -
  let ?z = "foldl (\<lambda>s r. replace_all r (\<lambda>_. []) s) y title_noise"
  have "length (normalizeTrackTitle_with lower y)
          \<le> length (replace_all re_spaces (\<lambda>_. [32]) ?z)"
    unfolding title_as_fold assms(1) by (rule trim_length)
  also have "\<dots> \<le> length ?z"
    by (rule replace_all_length [OF spaces_not_nullable]) simp
  also have "\<dots> < length y"
    by (rule strip_all_shrinks [OF title_noise_not_nullable assms(2)])
  finally show ?thesis .
qed

lemma artist_shrinks:
  assumes "lower y = y"
    and "list_all (\<lambda>c. \<not> is_upper c) y" and "list_all (\<lambda>c. c \<noteq> 38) y"
    and "list_all (\<lambda>c. c \<noteq> 44) y" and "\<exists>r \<in> set artist_suffixes. occurs r y"
  shows "length (normalizeArtistName_with lower y) < length y"
proof -
  let ?z = "foldl (\<lambda>s r. replace_first r (\<lambda>_. []) s) y artist_suffixes"
  have z: "list_all (\<lambda>c. \<not> is_upper c) ?z" "list_all (\<lambda>c. c \<noteq> 38) ?z"
    "list_all (\<lambda>c. c \<noteq> 44) ?z"
    using assms(2,3,4) by (simp_all add: strip_first_pred)
  have "normalizeArtistName_with lower y = trim (replace_all re_spaces (\<lambda>_. [32]) ?z)"
    unfolding artist_as_fold assms(1)
    by (simp only: artist_tail_fixed [OF z])
  then have "length (normalizeArtistName_with lower y)
               \<le> length (replace_all re_spaces (\<lambda>_. [32]) ?z)"
    by (simp add: trim_length)
  also have "\<dots> \<le> length ?z"
    by (rule replace_all_length [OF spaces_not_nullable]) simp
  also have "\<dots> < length y"
    by (rule strip_first_shrinks [OF artist_suffixes_not_nullable assms(5)])
  finally show ?thesis .
qed

lemma dirty_norms:
  "normalizeTrackTitle (js ''Hello - (Audio) Video'') = js ''hello - video''"
  "normalizeTrackTitle (js ''hello - video'') = js ''hello''"
  "normalizeArtistName (js ''AdeleVEVO Official'') = js ''adelevevo''"
  "normalizeArtistName (js ''adelevevo'') = js ''adele''"
  by code_simp+

lemma clean_norms:
  "normalizeTrackTitle (js ''Blinding Lights (Official Video)'') = js ''blinding lights''"
  "normalizeArtistName (js ''The Weeknd - Topic'') = js ''the weeknd''"
  by code_simp+

lemma clean_checks:
  "\<forall>r \<in> set title_noise. \<not> occurs r (js ''blinding lights'')"
  "\<forall>r \<in> set artist_suffixes. \<not> occurs r (js ''the weeknd'')"
  "toLowerCase (js ''blinding lights'') = js ''blinding lights''"
  "toLowerCase (js ''the weeknd'') = js ''the weeknd''"
  by code_simp+

text \<open>
  C2. For every string and every lowering: when the lowering leaves the normalized
  title as it is, \<open>normalizeTrackTitle\<close> applied twice gives the same as applied once
  exactly when no pattern that the function strips occurs in the normalized title;
  when the lowering never yields \<open>A\<close>..\<open>Z\<close> and leaves the normalized name as it is,
  \<open>normalizeArtistName\<close> applied twice gives the same as applied once exactly when the
  normalized name ends in none of the suffixes the function strips (\<open>vevo\<close>, \<open>topic\<close>,
  \<open>official\<close>).
\<close>

theorem normalize_idempotent_iff_clean:
  "(lower (normalizeTrackTitle_with lower x) = normalizeTrackTitle_with lower x \<longrightarrow>
      (normalizeTrackTitle_with lower (normalizeTrackTitle_with lower x)
         = normalizeTrackTitle_with lower x
       \<longleftrightarrow> (\<forall>r \<in> set title_noise. \<not> occurs r (normalizeTrackTitle_with lower x))))
   \<and> ((\<forall>s. list_all (\<lambda>c. \<not> is_upper c) (lower s)) \<longrightarrow>
      lower (normalizeArtistName_with lower x) = normalizeArtistName_with lower x \<longrightarrow>
      (normalizeArtistName_with lower (normalizeArtistName_with lower x)
         = normalizeArtistName_with lower x
       \<longleftrightarrow> (\<forall>r \<in> set artist_suffixes. \<not> occurs r (normalizeArtistName_with lower x))))"
proof (intro conjI impI iffI)
  assume "lower (normalizeTrackTitle_with lower x) = normalizeTrackTitle_with lower x"
    and "\<forall>r \<in> set title_noise. \<not> occurs r (normalizeTrackTitle_with lower x)"
  then show "normalizeTrackTitle_with lower (normalizeTrackTitle_with lower x)
               = normalizeTrackTitle_with lower x"
    by (intro title_fixed title_spaced title_ends)
next
  assume l: "lower (normalizeTrackTitle_with lower x) = normalizeTrackTitle_with lower x"
    and e: "normalizeTrackTitle_with lower (normalizeTrackTitle_with lower x)
              = normalizeTrackTitle_with lower x"
  show "\<forall>r \<in> set title_noise. \<not> occurs r (normalizeTrackTitle_with lower x)"
  proof (rule ccontr)
    assume "\<not> (\<forall>r \<in> set title_noise. \<not> occurs r (normalizeTrackTitle_with lower x))"
    then have "\<exists>r \<in> set title_noise. occurs r (normalizeTrackTitle_with lower x)" by simp
    from title_shrinks [where lower = lower, OF l this] e show False by simp
  qed
next
  assume u: "\<forall>s. list_all (\<lambda>c. \<not> is_upper c) (lower s)"
    and l: "lower (normalizeArtistName_with lower x) = normalizeArtistName_with lower x"
    and c: "\<forall>r \<in> set artist_suffixes. \<not> occurs r (normalizeArtistName_with lower x)"
  from u have "list_all (\<lambda>c. \<not> is_upper c) (lower (normalizeArtistName_with lower x))"
    by blast
  with l have n: "list_all (\<lambda>c. \<not> is_upper c) (normalizeArtistName_with lower x)"
    by simp
  from c l n show "normalizeArtistName_with lower (normalizeArtistName_with lower x)
                     = normalizeArtistName_with lower x"
    by (intro artist_fixed artist_no_ampersand artist_no_comma artist_spaced artist_ends)
next
  assume u: "\<forall>s. list_all (\<lambda>c. \<not> is_upper c) (lower s)"
    and l: "lower (normalizeArtistName_with lower x) = normalizeArtistName_with lower x"
    and e: "normalizeArtistName_with lower (normalizeArtistName_with lower x)
              = normalizeArtistName_with lower x"
  from u have "list_all (\<lambda>c. \<not> is_upper c) (lower (normalizeArtistName_with lower x))"
    by blast
  with l have n: "list_all (\<lambda>c. \<not> is_upper c) (normalizeArtistName_with lower x)"
    by simp
  show "\<forall>r \<in> set artist_suffixes. \<not> occurs r (normalizeArtistName_with lower x)"
  proof (rule ccontr)
    assume "\<not> (\<forall>r \<in> set artist_suffixes. \<not> occurs r (normalizeArtistName_with lower x))"
    then have "\<exists>r \<in> set artist_suffixes. occurs r (normalizeArtistName_with lower x)"
      by simp
    from artist_shrinks [where lower = lower, OF l n artist_no_ampersand artist_no_comma this] e
    show False by simp
  qed
qed

theorem normalize_idempotent_iff_clean_witness:
  "toLowerCase (normalizeTrackTitle (js ''Blinding Lights (Official Video)''))
       = normalizeTrackTitle (js ''Blinding Lights (Official Video)'')
   \<and> list_all (\<lambda>r. \<not> occurs r (normalizeTrackTitle (js ''Blinding Lights (Official Video)'')))
         title_noise
   \<and> normalizeTrackTitle (normalizeTrackTitle (js ''Blinding Lights (Official Video)''))
       = normalizeTrackTitle (js ''Blinding Lights (Official Video)'')
   \<and> (\<forall>s. list_all (\<lambda>c. \<not> is_upper c) (toLowerCase s))
   \<and> toLowerCase (normalizeArtistName (js ''The Weeknd - Topic''))
       = normalizeArtistName (js ''The Weeknd - Topic'')
   \<and> list_all (\<lambda>r. \<not> occurs r (normalizeArtistName (js ''The Weeknd - Topic'')))
         artist_suffixes
   \<and> normalizeArtistName (normalizeArtistName (js ''The Weeknd - Topic''))
       = normalizeArtistName (js ''The Weeknd - Topic'')"
proof -
  have u: "\<forall>s. list_all (\<lambda>c. \<not> is_upper c) (toLowerCase s)"
    by (simp add: toLowerCase_no_upper)
  have l: "toLowerCase (normalizeTrackTitle (js ''Blinding Lights (Official Video)''))
             = normalizeTrackTitle (js ''Blinding Lights (Official Video)'')"
    "toLowerCase (normalizeArtistName (js ''The Weeknd - Topic''))
             = normalizeArtistName (js ''The Weeknd - Topic'')"
    unfolding clean_norms by (rule clean_checks)+
  have c: "\<forall>r \<in> set title_noise.
             \<not> occurs r (normalizeTrackTitle (js ''Blinding Lights (Official Video)''))"
    "\<forall>r \<in> set artist_suffixes. \<not> occurs r (normalizeArtistName (js ''The Weeknd - Topic''))"
    unfolding clean_norms by (rule clean_checks)+
  from normalize_idempotent_iff_clean
         [where lower = toLowerCase and x = "js ''Blinding Lights (Official Video)''"]
       normalize_idempotent_iff_clean
         [where lower = toLowerCase and x = "js ''The Weeknd - Topic''"]
       u l c
  show ?thesis unfolding list_all_iff normalizeTrackTitle_def normalizeArtistName_def
    by blast
qed

text \<open>
  The condition on the lowering is needed. Stripping can join two unpaired surrogates
  to a capital letter: from D801 \<open>(audio)\<close> DC00 the pair D801 DC00 is left, in which no
  pattern occurs, and the second pass lowers it to D801 DC28.
\<close>

lemma deseret_norms:
  "normalizeTrackTitle_with toLowerCase_deseret (0xD801 # js ''(audio)'' @ [0xDC00])
     = [0xD801, 0xDC00]"
  "list_all (\<lambda>r. \<not> occurs r [0xD801, 0xDC00]) title_noise"
  "normalizeTrackTitle_with toLowerCase_deseret [0xD801, 0xDC00] = [0xD801, 0xDC28]"
  by code_simp+

text \<open>
  Stripping one pattern can uncover another: \<open>Hello - (Audio) Video\<close> becomes
  \<open>hello - video\<close> and then \<open>hello\<close>; \<open>AdeleVEVO Official\<close> becomes \<open>adelevevo\<close> and then
  \<open>adele\<close>.
\<close>

theorem normalize_not_idempotent:
  "normalizeTrackTitle (normalizeTrackTitle (js ''Hello - (Audio) Video''))
     \<noteq> normalizeTrackTitle (js ''Hello - (Audio) Video'')
   \<and> normalizeArtistName (normalizeArtistName (js ''AdeleVEVO Official''))
     \<noteq> normalizeArtistName (js ''AdeleVEVO Official'')"
  by (simp add: dirty_norms) (simp add: js_def)

text \<open>
  C3. \<open>normalizeArtistName\<close> is meant to put a space at each change from lower to upper
  case. It lowercases first, so that the pattern for the change never matches:
  \<open>JeremyZuckerVEVO\<close> becomes \<open>jeremyzucker\<close>, and for every artist name the step
  returns what it was given.
\<close>

theorem normalizeArtistName_camel_case:
  "normalizeArtistName (js ''JeremyZuckerVEVO'') = js ''jeremyzucker''
   \<and> replace_all re_camel camel_space
         (replace_first re_official (\<lambda>_. [])
            (replace_first re_topic (\<lambda>_. [])
               (replace_first re_vevo (\<lambda>_. []) (toLowerCase name))))
       = replace_first re_official (\<lambda>_. [])
           (replace_first re_topic (\<lambda>_. [])
              (replace_first re_vevo (\<lambda>_. []) (toLowerCase name)))"
proof -
  have "normalizeArtistName (js ''JeremyZuckerVEVO'') = js ''jeremyzucker''"
    by code_simp
  moreover have "list_all (\<lambda>c. \<not> is_upper c)
                   (replace_first re_official (\<lambda>_. [])
                      (replace_first re_topic (\<lambda>_. [])
                         (replace_first re_vevo (\<lambda>_. []) (toLowerCase name))))"
    by (intro replace_first_const_pred toLowerCase_no_upper) simp_all
  ultimately show ?thesis
    by (simp add: replace_all_absent camel_absent)
qed

section \<open>The AI matcher\<close>

text \<open>
  \<open>callGeminiAPI\<close> never throws, and when the request fails (network error, response not
  OK, unusable body, no JSON object in the text, malformed JSON) it returns the first
  candidate with confidence 0.3. It tests an index below 0 or beyond the candidates
  together with \<open>-1\<close>: the result then has no match and the confidence of the answer.
\<close>

lemma callGeminiAPI_fallback:
  "(\<exists>r. callGeminiAPI parse reply src candidates = Inr r)
   \<and> (gemini_fails parse reply \<longrightarrow> candidates = first # others \<longrightarrow>
        callGeminiAPI parse reply src candidates = Inr (Some first, 0.3))
   \<and> (reply = reply_text body \<longrightarrow> match_first re_json body = Some m \<longrightarrow>
        parse m = Some result \<longrightarrow> bestMatchIndex result = Some i \<longrightarrow>
        i < 0 \<or> i \<ge> real (length candidates) \<longrightarrow>
        callGeminiAPI parse reply src candidates
          = Inr (None, case confidence_json result of None \<Rightarrow> 0 | Some c \<Rightarrow> c))"
proof -
  have a: "\<exists>r. callGeminiAPI parse reply src candidates = Inr r"
    by (cases "callGeminiAPI_try parse reply candidates")
       (simp_all add: callGeminiAPI_def del: split_paired_Ex)
  have b: "gemini_fails parse reply \<longrightarrow> candidates = first # others \<longrightarrow>
        callGeminiAPI parse reply src candidates = Inr (Some first, 0.3)"
    by (auto simp: gemini_fails_def callGeminiAPI_def callGeminiAPI_try_def
             split: gemini_reply.splits option.splits)
  have c: "reply = reply_text body \<longrightarrow> match_first re_json body = Some m \<longrightarrow>
        parse m = Some result \<longrightarrow> bestMatchIndex result = Some i \<longrightarrow>
        i < 0 \<or> i \<ge> real (length candidates) \<longrightarrow>
        callGeminiAPI parse reply src candidates
          = Inr (None, case confidence_json result of None \<Rightarrow> 0 | Some c \<Rightarrow> c)"
    by (auto simp: callGeminiAPI_def callGeminiAPI_try_def Let_def)
  from a b c show ?thesis by blast
qed

lemma callGeminiAPI_fallback_samples:
  "gemini_fails sample_parse (not_ok 500)
   \<and> callGeminiAPI sample_parse (not_ok 500) sample_source [sample_other, sample_same]
       = Inr (Some sample_other, 0.3)
   \<and> gemini_fails sample_parse (reply_text (js ''I cannot decide.''))
   \<and> callGeminiAPI sample_parse (reply_text (js ''I cannot decide.'')) sample_source
         [sample_other, sample_same] = Inr (Some sample_other, 0.3)
   \<and> callGeminiAPI sample_parse (reply_text sample_text) sample_source
         [sample_other, sample_same] = Inr (None, 0.9)"
proof -
  have n: "match_first re_json (js ''I cannot decide.'') = None"
    by code_simp
  have f1: "gemini_fails sample_parse (not_ok 500)"
    by (simp add: gemini_fails_def)
  have f2: "gemini_fails sample_parse (reply_text (js ''I cannot decide.''))"
    by (simp add: gemini_fails_def n)
  have p: "sample_parse (js ''{\"bestMatchIndex\": 7, \"confidence\": 0.9}'')
             = Some \<lparr>bestMatchIndex = Some 7, confidence_json = Some 0.9\<rparr>"
    by (simp add: sample_parse_def)
  from callGeminiAPI_fallback [where parse = sample_parse and reply = "not_ok 500"
         and candidates = "[sample_other, sample_same]" and first = sample_other
         and others = "[sample_same]" and src = sample_source]
       callGeminiAPI_fallback [where parse = sample_parse
         and reply = "reply_text (js ''I cannot decide.'')"
         and candidates = "[sample_other, sample_same]" and first = sample_other
         and others = "[sample_same]" and src = sample_source]
       callGeminiAPI_fallback [where parse = sample_parse and reply = "reply_text sample_text"
         and body = sample_text and candidates = "[sample_other, sample_same]"
         and src = sample_source
         and m = "js ''{\"bestMatchIndex\": 7, \"confidence\": 0.9}''"
         and result = "\<lparr>bestMatchIndex = Some 7, confidence_json = Some 0.9\<rparr>" and i = 7]
       f1 f2 p sample_json
  show ?thesis by simp
qed

text \<open>
  \<open>matchWithGemini\<close> throws on such an index, and its \<open>catch\<close> answers with the first
  candidate and confidence 0.3.
\<close>

lemma matchWithGemini_invalid_index:
  assumes "apiKey \<noteq> []" and "candidates = first # others"
    and "match_first re_json body = Some m" and "parse m = Some result"
    and "bestMatchIndex result = Some i" and "i \<noteq> - 1"
    and "i < 0 \<or> i \<ge> real (length candidates)"
  shows "matchWithGemini apiKey parse (reply_text body) src candidates
           = Inr (Some first, Some 0.3)"
  using assms by (auto simp: matchWithGemini_def matchWithGemini_try_def)

text \<open>
  C4. An index that is neither \<open>-1\<close> nor the index of a candidate is to be treated as a
  failure, answered with the first candidate and confidence 0.3. \<open>matchWithGemini\<close> does
  so; \<open>callGeminiAPI\<close> does not: for the index 7 with two candidates it returns no match
  and the confidence 0.9 of the answer.
\<close>

theorem callGeminiAPI_invalid_index:
  "callGeminiAPI sample_parse (reply_text sample_text) sample_source [sample_other, sample_same]
     = Inr (None, 0.9)
   \<and> matchWithGemini (js ''key'') sample_parse (reply_text sample_text) sample_source
         [sample_other, sample_same] = Inr (Some sample_other, Some 0.3)"
proof -
  have p: "sample_parse (js ''{\"bestMatchIndex\": 7, \"confidence\": 0.9}'')
             = Some \<lparr>bestMatchIndex = Some 7, confidence_json = Some 0.9\<rparr>"
    by (simp add: sample_parse_def)
  have k: "js ''key'' \<noteq> []"
    by (simp add: js_def)
  show ?thesis
    by (simp add: callGeminiAPI_def callGeminiAPI_try_def matchWithGemini_def
        matchWithGemini_try_def sample_json p k)
qed

end
